theory Spec2Isabelle
  imports Main "HOL-Library.Word"
begin

unbundle bit_operations_syntax

section \<open>Kernel (kernel.c): data\<close>

type_synonym u32 = "32 word"
type_synonym u16 = "16 word"
type_synonym byte = "8 word"

definition MEMORY_START :: int where "MEMORY_START = 0x100000"
definition PAGE_SIZE :: int where "PAGE_SIZE = 4096"
definition MAX_PAGES :: nat where "MAX_PAGES = 1024"
definition MAX_PROCESSES :: int where "MAX_PROCESSES = 10"
definition MAX_ROWS :: int where "MAX_ROWS = 25"
definition MAX_COLS :: int where "MAX_COLS = 80"
definition WHITE_ON_BLACK :: u16 where "WHITE_ON_BLACK = 0x0F"
definition SYS_WRITE :: u32 where "SYS_WRITE = 1"
definition SYS_READ :: u32 where "SYS_READ = 2"
definition SYS_EXIT :: u32 where "SYS_EXIT = 3"
definition SYS_FORK :: u32 where "SYS_FORK = 4"
definition SYS_EXEC :: u32 where "SYS_EXEC = 5"

text \<open>
  C strings. A \<^verbatim>\<open>const char*\<close> argument is given by the characters stored at the
  address; the string it denotes ends before the first NUL, or at the end of the list
  (where the terminating NUL stands).
\<close>

definition NUL :: char where "NUL = CHR 0x00"

definition c_str :: "string \<Rightarrow> string" where
  "c_str s = takeWhile (\<lambda>c. c \<noteq> NUL) s"


text \<open>
  A C \<^verbatim>\<open>int\<close> is a 32-bit two's complement value, kept as the integer it denotes.
  An increment that leaves the range wraps around, as the compiled code does:
  \<open>int32\<close> brings a result back into the range.
\<close>

definition int32 :: "int \<Rightarrow> int" where
  "int32 x = sint (word_of_int x :: 32 word)"

text \<open>
  The process structure \<^verbatim>\<open>process_t\<close>; \<open>p_name\<close> is the 32-byte array
  \<^verbatim>\<open>char name[32]\<close>, a list of 32 characters.
\<close>

record process =
  pid :: int
  state :: int
  stack_ptr :: u32
  code_ptr :: u32
  p_name :: string

text \<open>
  The static variables of kernel.c. An array is a function from its index; the C array
  holds the indices below its declared size (\<^verbatim>\<open>MAX_PAGES / 32\<close> words of bitmap,
  \<^verbatim>\<open>MAX_PROCESSES\<close> slots), an access outside is undefined in C.
\<close>

record kernel =
  current_row :: int
  current_col :: int
  video_memory :: "int \<Rightarrow> u16"
  memory_bitmap :: "nat \<Rightarrow> u32"
  next_pid :: int
  processes :: "int \<Rightarrow> process"
  current_process :: int

text \<open>
  The values the static initialisers give (all zero, \<^verbatim>\<open>next_pid = 1\<close>); the content
  \<open>vm\<close> of the video memory is not the program's.
\<close>

definition process_zero :: process where
  "process_zero = \<lparr>pid = 0, state = 0, stack_ptr = 0, code_ptr = 0, p_name = replicate 32 NUL\<rparr>"

definition kernel_static :: "(int \<Rightarrow> u16) \<Rightarrow> kernel" where
  "kernel_static vm =
     \<lparr>current_row = 0, current_col = 0, video_memory = vm, memory_bitmap = (\<lambda>_. 0),
      next_pid = 1, processes = (\<lambda>_. process_zero), current_process = 0\<rparr>"

section \<open>Kernel: page allocator\<close>

text \<open>\<^verbatim>\<open>init_memory\<close>: the loop clears the 32 words, then the first four pages are marked.\<close>

fun init_memory_loop :: "nat \<Rightarrow> (nat \<Rightarrow> u32) \<Rightarrow> (nat \<Rightarrow> u32)" where
  "init_memory_loop 0 bm = bm"
| "init_memory_loop (Suc n) bm = (init_memory_loop n bm)(n := 0)"

definition init_memory :: "kernel \<Rightarrow> kernel" where
  "init_memory k =
     k\<lparr>memory_bitmap := (init_memory_loop (MAX_PAGES div 32) (memory_bitmap k))(0 := 0x0000000F)\<rparr>"

text \<open>
  \<^verbatim>\<open>allocate_page\<close>. The inner loop over \<open>j\<close> looks for the first bit of the word
  that \<^verbatim>\<open>!(memory_bitmap[i] & (1 << j))\<close> finds clear; the outer loop over \<open>i\<close> skips
  the words equal to \<^verbatim>\<open>0xFFFFFFFF\<close>. The counters \<open>i\<close> and \<open>j\<close> run from 0 to 32, and
  \<^verbatim>\<open>1 << j\<close> is the 32-bit word with bit \<open>j\<close> alone, for \<open>j = 31\<close> too.
\<close>

function scan_bits :: "u32 \<Rightarrow> nat \<Rightarrow> nat option" where
  "scan_bits w j =
     (if j < 32
      then (if w AND push_bit j 1 = 0 then Some j else scan_bits w (Suc j))
      else None)"
  by pat_completeness auto
termination
  by (relation "measure (\<lambda>(w, j). 32 - j)") auto

declare scan_bits.simps [simp del]

function scan_words :: "(nat \<Rightarrow> u32) \<Rightarrow> nat \<Rightarrow> u32 \<times> (nat \<Rightarrow> u32)" where
  "scan_words bm i =
     (if i < MAX_PAGES div 32
      then (if bm i \<noteq> 0xFFFFFFFF
            then (case scan_bits (bm i) 0 of
                    Some j \<Rightarrow>
                      (word_of_int (MEMORY_START + (int (i * 32 + j) * PAGE_SIZE)),
                       bm(i := bm i OR push_bit j 1))
                  | None \<Rightarrow> scan_words bm (Suc i))
            else scan_words bm (Suc i))
      else (0, bm))"
  by pat_completeness auto
termination
  by (relation "measure (\<lambda>(bm, i). MAX_PAGES div 32 - i)") auto

declare scan_words.simps [simp del]

definition allocate_page :: "kernel \<Rightarrow> u32 \<times> kernel" where
  "allocate_page k =
     (case scan_words (memory_bitmap k) 0 of (a, bm) \<Rightarrow> (a, k\<lparr>memory_bitmap := bm\<rparr>))"

text \<open>
  \<^verbatim>\<open>free_page\<close>: unsigned 32-bit arithmetic on the address, no check of the range.
\<close>

definition free_page :: "u32 \<Rightarrow> kernel \<Rightarrow> kernel" where
  "free_page page k =
     (let page_index = (page - word_of_int MEMORY_START) div word_of_int PAGE_SIZE;
          bitmap_index = unat (page_index div 32);
          bit_index = unat (page_index mod 32)
      in k\<lparr>memory_bitmap :=
             (memory_bitmap k)(bitmap_index := memory_bitmap k bitmap_index AND NOT (push_bit bit_index 1))\<rparr>)"

text \<open>
  Page \<open>n\<close> of the pool is allocated when its bit is set in the bitmap: bit
  \<open>n mod 32\<close> of word \<open>n div 32\<close>, the page \<^verbatim>\<open>i * 32 + j\<close> of the scan.
\<close>

definition page_allocated :: "(nat \<Rightarrow> u32) \<Rightarrow> nat \<Rightarrow> bool" where
  "page_allocated bm n = bit (bm (n div 32)) (n mod 32)"

definition page_address :: "nat \<Rightarrow> u32" where
  "page_address n = word_of_int (MEMORY_START + int n * PAGE_SIZE)"

section \<open>Kernel: text output\<close>

text \<open>
  \<^verbatim>\<open>print_char\<close>. The scroll loop copies cell \<open>i + MAX_COLS\<close> to cell \<open>i\<close> for
  ascending \<open>i\<close>. The character is a plain \<^verbatim>\<open>char\<close>, signed on the target, so it
  is sign-extended before the OR and the result is cut to 16 bits.
\<close>

function scroll_loop :: "int \<Rightarrow> (int \<Rightarrow> u16) \<Rightarrow> (int \<Rightarrow> u16)" where
  "scroll_loop i vm =
     (if i < (MAX_ROWS - 1) * MAX_COLS
      then scroll_loop (i + 1) (vm(i := vm (i + MAX_COLS)))
      else vm)"
  by pat_completeness auto
termination
  by (relation "measure (\<lambda>(i, vm). nat ((MAX_ROWS - 1) * MAX_COLS - i))") auto

declare scroll_loop.simps [simp del]

definition print_char :: "char \<Rightarrow> kernel \<Rightarrow> kernel" where
  "print_char c k =
     (if c = CHR 0x0A
      then (let k1 = k\<lparr>current_row := int32 (current_row k + 1), current_col := 0\<rparr>
            in if current_row k1 \<ge> MAX_ROWS
               then k1\<lparr>video_memory := scroll_loop 0 (video_memory k1),
                       current_row := MAX_ROWS - 1\<rparr>
               else k1)
      else (let index = int32 (current_row k * MAX_COLS + current_col k);
                k1 = k\<lparr>video_memory := (video_memory k)
                        (index := push_bit 8 WHITE_ON_BLACK OR scast (of_char c :: byte))\<rparr>;
                k2 = k1\<lparr>current_col := int32 (current_col k1 + 1)\<rparr>
            in if current_col k2 \<ge> MAX_COLS
               then k2\<lparr>current_col := 0, current_row := int32 (current_row k2 + 1)\<rparr>
               else k2))"

text \<open>\<^verbatim>\<open>print_string\<close> prints the characters up to the first NUL.\<close>

definition print_string :: "string \<Rightarrow> kernel \<Rightarrow> kernel" where
  "print_string str k = fold print_char (c_str str) k"

text \<open>
  \<^verbatim>\<open>print_hex\<close>: the loop runs \<open>i\<close> from 7 down to 0; the counter of
  \<open>print_hex_loop\<close> is \<open>i + 1\<close>.
\<close>

fun print_hex_loop :: "u32 \<Rightarrow> nat \<Rightarrow> kernel \<Rightarrow> kernel" where
  "print_hex_loop v 0 k = k"
| "print_hex_loop v (Suc i) k =
     print_hex_loop v i
       (print_char (''0123456789ABCDEF'' ! unat (ucast (drop_bit (i * 4) v AND 0xF) :: byte)) k)"

definition print_hex :: "u32 \<Rightarrow> kernel \<Rightarrow> kernel" where
  "print_hex v k = print_hex_loop v 8 (print_string ''0x'' k)"

section \<open>Kernel: processes and system calls\<close>

text \<open>
  \<^verbatim>\<open>init_processes\<close>: the loop over the ten slots; \<open>init_processes_loop n\<close> has cleared
  the slots below \<open>n\<close>.
\<close>

fun init_processes_loop :: "nat \<Rightarrow> (int \<Rightarrow> process) \<Rightarrow> (int \<Rightarrow> process)" where
  "init_processes_loop 0 ps = ps"
| "init_processes_loop (Suc n) ps =
     (let ps1 = init_processes_loop n ps
      in ps1(int n := (ps1 (int n))\<lparr>pid := 0, state := 0, stack_ptr := 0, code_ptr := 0,
                                     p_name := (p_name (ps1 (int n)))[0 := NUL]\<rparr>))"

definition init_processes :: "kernel \<Rightarrow> kernel" where
  "init_processes k = k\<lparr>processes := init_processes_loop (nat MAX_PROCESSES) (processes k)\<rparr>"



definition upd_process :: "int \<Rightarrow> (process \<Rightarrow> process) \<Rightarrow> kernel \<Rightarrow> kernel" where
  "upd_process i f k = k\<lparr>processes := (processes k)(i := f (processes k i))\<rparr>"







text \<open>
  \<^verbatim>\<open>handle_system_call\<close>. \<^verbatim>\<open>SYS_WRITE\<close> prints the string found at the address
  \<open>arg1\<close>; \<open>mem\<close> gives the characters stored at an address.
\<close>

definition handle_system_call ::
  "(u32 \<Rightarrow> string) \<Rightarrow> u32 \<Rightarrow> u32 \<Rightarrow> u32 \<Rightarrow> u32 \<Rightarrow> kernel \<Rightarrow> kernel" where
  "handle_system_call mem call_number arg1 arg2 arg3 k =
     (if call_number = SYS_WRITE then print_string (mem arg1) k
      else if call_number = SYS_READ then k
      else if call_number = SYS_EXIT
        then upd_process (current_process k) (\<lambda>p. p\<lparr>state := 3\<rparr>) k
      else if call_number = SYS_FORK then k
      else if call_number = SYS_EXEC then k
      else print_string [CHR 0x0A]
             (print_hex call_number (print_string ''Unknown system call: '' k)))"

section \<open>File system (filesystem.c): data\<close>

definition MAX_FILES :: u32 where "MAX_FILES = 100"
definition MAX_FILENAME :: nat where "MAX_FILENAME = 32"
definition MAX_FILE_SIZE :: u32 where "MAX_FILE_SIZE = 4096"
definition MAX_DIRECTORIES :: u32 where "MAX_DIRECTORIES = 50"
definition MAX_PATH_LENGTH :: nat where "MAX_PATH_LENGTH = 128"
definition FILE_TYPE_REGULAR :: u32 where "FILE_TYPE_REGULAR = 1"
definition PERM_READ :: u32 where "PERM_READ = 1"
definition PERM_EXECUTE :: u32 where "PERM_EXECUTE = 4"

text \<open>
  The value \<^verbatim>\<open>0xFFFFFFFF\<close>, which the source returns for a full table and for a name
  that is not found.
\<close>

definition NOT_FOUND :: u32 where "NOT_FOUND = 0xFFFFFFFF"

text \<open>
  What the C code leaves undefined and this model makes a result of its own: a copy that
  runs past the end of \<^verbatim>\<open>file_data\<close>, and a string that does not fit, with its NUL,
  into a buffer of \<^verbatim>\<open>MAX_PATH_LENGTH\<close> bytes.
\<close>

datatype fault = OutOfBounds | BufferOverflow

text \<open>
  \<^verbatim>\<open>file_entry_t\<close> and \<^verbatim>\<open>directory_entry_t\<close>; the fields \<^verbatim>\<open>name\<close>, \<^verbatim>\<open>size\<close>,
  \<^verbatim>\<open>type\<close> and \<^verbatim>\<open>parent_dir\<close> carry a prefix, the names are 32-byte arrays.
\<close>

record file_entry =
  f_name :: string
  f_size :: u32
  f_type :: u32
  permissions :: u32
  data_start :: u32
  f_parent_dir :: u32
  next_file :: u32

record directory_entry =
  d_name :: string
  d_parent_dir :: u32
  first_file :: u32
  next_dir :: u32

text \<open>
  The static variables of filesystem.c. The tables are functions from the 32-bit index;
  the C arrays hold the indices below \<^verbatim>\<open>MAX_FILES\<close> and \<^verbatim>\<open>MAX_DIRECTORIES\<close>, and
  \<^verbatim>\<open>file_data\<close> the bytes below \<^verbatim>\<open>MAX_FILES * MAX_FILE_SIZE\<close>. An access outside is
  undefined in C; the model reads and writes the function there.
\<close>

record fs =
  file_table :: "u32 \<Rightarrow> file_entry"
  directory_table :: "u32 \<Rightarrow> directory_entry"
  file_data :: "nat \<Rightarrow> byte"
  next_file_id :: u32
  next_dir_id :: u32
  current_directory :: u32
  data_offset :: u32

definition file_zero :: file_entry where
  "file_zero = \<lparr>f_name = replicate MAX_FILENAME NUL, f_size = 0, f_type = 0, permissions = 0,
                 data_start = 0, f_parent_dir = 0, next_file = 0\<rparr>"

definition directory_zero :: directory_entry where
  "directory_zero = \<lparr>d_name = replicate MAX_FILENAME NUL, d_parent_dir = 0, first_file = 0,
                      next_dir = 0\<rparr>"

definition fs_static :: fs where
  "fs_static = \<lparr>file_table = (\<lambda>_. file_zero), directory_table = (\<lambda>_. directory_zero),
                 file_data = (\<lambda>_. 0), next_file_id = 0, next_dir_id = 0,
                 current_directory = 0, data_offset = 0\<rparr>"

section \<open>File system: string and memory primitives\<close>

text \<open>
  \<^verbatim>\<open>strcpy\<close> writes the string and its NUL; \<^verbatim>\<open>strncpy\<close> writes \<open>n\<close> bytes, the
  string cut at \<open>n\<close> and padded with NULs. Both leave the rest of the destination.
\<close>

definition strcpy :: "string \<Rightarrow> string \<Rightarrow> string" where
  "strcpy dst src = c_str src @ [NUL] @ drop (Suc (length (c_str src))) dst"

definition strncpy :: "string \<Rightarrow> string \<Rightarrow> nat \<Rightarrow> string" where
  "strncpy dst src n =
     take n (c_str src) @ replicate (n - length (c_str src)) NUL @ drop n dst"

text \<open>\<^verbatim>\<open>memset(table, 0, sizeof(table))\<close> on a table of \<open>n\<close> entries.\<close>

definition memset_table :: "u32 \<Rightarrow> 'a \<Rightarrow> (u32 \<Rightarrow> 'a) \<Rightarrow> (u32 \<Rightarrow> 'a)" where
  "memset_table n z t = (\<lambda>i. if i < n then z else t i)"

definition memset_bytes :: "nat \<Rightarrow> (nat \<Rightarrow> byte) \<Rightarrow> (nat \<Rightarrow> byte)" where
  "memset_bytes n m = (\<lambda>i. if i < n then 0 else m i)"

text \<open>
  \<^verbatim>\<open>memcpy(&dst[d], &src[s], n)\<close> on two disjoint byte regions.
\<close>

definition memcpy :: "(nat \<Rightarrow> byte) \<Rightarrow> nat \<Rightarrow> (nat \<Rightarrow> byte) \<Rightarrow> nat \<Rightarrow> nat \<Rightarrow> (nat \<Rightarrow> byte)" where
  "memcpy dst d src s n = (\<lambda>i. if d \<le> i \<and> i < d + n then src (s + (i - d)) else dst i)"

section \<open>File system: operations\<close>

definition upd_file :: "u32 \<Rightarrow> (file_entry \<Rightarrow> file_entry) \<Rightarrow> fs \<Rightarrow> fs" where
  "upd_file i f s = s\<lparr>file_table := (file_table s)(i := f (file_table s i))\<rparr>"

definition upd_dir :: "u32 \<Rightarrow> (directory_entry \<Rightarrow> directory_entry) \<Rightarrow> fs \<Rightarrow> fs" where
  "upd_dir i f s = s\<lparr>directory_table := (directory_table s)(i := f (directory_table s i))\<rparr>"

text \<open>
  The loops that walk a chain of \<^verbatim>\<open>next_file\<close> or \<^verbatim>\<open>next_dir\<close> links have no bound
  in the source; on a cyclic chain they do not return, which is the value \<open>None\<close>.

  \<^verbatim>\<open>create_file\<close>: the walk to the last file of the current directory.
\<close>

partial_function (option) last_file_loop :: "(u32 \<Rightarrow> file_entry) \<Rightarrow> u32 \<Rightarrow> u32 option" where
  "last_file_loop ft last_file =
     (if next_file (ft last_file) \<noteq> 0
      then last_file_loop ft (next_file (ft last_file))
      else Some last_file)"

declare last_file_loop.simps [code]

definition create_file :: "string \<Rightarrow> u32 \<Rightarrow> u32 \<Rightarrow> fs \<Rightarrow> (u32 \<times> fs) option" where
  "create_file name type perms s =
     (if next_file_id s \<ge> MAX_FILES then Some (NOT_FOUND, s)
      else
        (let file_id = next_file_id s;
             s1 = s\<lparr>next_file_id := next_file_id s + 1\<rparr>;
             s2 = upd_file file_id (\<lambda>e. e\<lparr>f_name := strncpy (f_name e) name (MAX_FILENAME - 1)\<rparr>) s1;
             s3 = upd_file file_id (\<lambda>e. e\<lparr>f_name := (f_name e)[MAX_FILENAME - 1 := NUL]\<rparr>) s2;
             s4 = upd_file file_id (\<lambda>e. e\<lparr>f_size := 0, f_type := type, permissions := perms,
                     data_start := data_offset s3, f_parent_dir := current_directory s3,
                     next_file := 0\<rparr>) s3
         in if first_file (directory_table s4 (current_directory s4)) = 0
            then Some (file_id,
                   (upd_dir (current_directory s4) (\<lambda>d. d\<lparr>first_file := file_id\<rparr>) s4)
                     \<lparr>data_offset := data_offset s4 + MAX_FILE_SIZE\<rparr>)
            else (case last_file_loop (file_table s4)
                         (first_file (directory_table s4 (current_directory s4))) of
                    None \<Rightarrow> None
                  | Some last_file \<Rightarrow>
                      Some (file_id,
                        (upd_file last_file (\<lambda>e. e\<lparr>next_file := file_id\<rparr>) s4)
                          \<lparr>data_offset := data_offset s4 + MAX_FILE_SIZE\<rparr>))))"

text \<open>\<^verbatim>\<open>init_filesystem\<close>: the three \<^verbatim>\<open>memset\<close>s, the root directory, the default files.\<close>

definition init_filesystem :: "fs \<Rightarrow> fs option" where
  "init_filesystem s =
     (let s1 = s\<lparr>file_table := memset_table MAX_FILES file_zero (file_table s)\<rparr>;
          s2 = s1\<lparr>directory_table := memset_table MAX_DIRECTORIES directory_zero (directory_table s1)\<rparr>;
          s3 = s2\<lparr>file_data := memset_bytes (unat MAX_FILES * unat MAX_FILE_SIZE) (file_data s2)\<rparr>;
          s4 = upd_dir 0 (\<lambda>d. d\<lparr>d_name := strcpy (d_name d) ''/''\<rparr>) s3;
          s5 = upd_dir 0 (\<lambda>d. d\<lparr>d_parent_dir := 0, first_file := 0, next_dir := 0\<rparr>) s4;
          s6 = s5\<lparr>next_dir_id := 1, next_file_id := 0, current_directory := 0, data_offset := 0\<rparr>
      in case create_file ''kernel.bin'' FILE_TYPE_REGULAR (PERM_READ OR PERM_EXECUTE) s6 of
           None \<Rightarrow> None
         | Some (_, s7) \<Rightarrow>
        (case create_file ''shell.bin'' FILE_TYPE_REGULAR (PERM_READ OR PERM_EXECUTE) s7 of
           None \<Rightarrow> None
         | Some (_, s8) \<Rightarrow>
        (case create_file ''init.bin'' FILE_TYPE_REGULAR (PERM_READ OR PERM_EXECUTE) s8 of
           None \<Rightarrow> None
         | Some (_, s9) \<Rightarrow> Some s9)))"

text \<open>\<^verbatim>\<open>create_directory\<close>: the walk along \<^verbatim>\<open>next_dir\<close> to the end of the chain.\<close>

partial_function (option) last_dir_loop :: "(u32 \<Rightarrow> directory_entry) \<Rightarrow> u32 \<Rightarrow> u32 option" where
  "last_dir_loop dt parent =
     (if next_dir (dt parent) \<noteq> 0
      then last_dir_loop dt (next_dir (dt parent))
      else Some parent)"

declare last_dir_loop.simps [code]

definition create_directory :: "string \<Rightarrow> fs \<Rightarrow> (u32 \<times> fs) option" where
  "create_directory name s =
     (if next_dir_id s \<ge> MAX_DIRECTORIES then Some (NOT_FOUND, s)
      else
        (let dir_id = next_dir_id s;
             s1 = s\<lparr>next_dir_id := next_dir_id s + 1\<rparr>;
             s2 = upd_dir dir_id (\<lambda>d. d\<lparr>d_name := strncpy (d_name d) name (MAX_FILENAME - 1)\<rparr>) s1;
             s3 = upd_dir dir_id (\<lambda>d. d\<lparr>d_name := (d_name d)[MAX_FILENAME - 1 := NUL]\<rparr>) s2;
             s4 = upd_dir dir_id (\<lambda>d. d\<lparr>d_parent_dir := current_directory s3, first_file := 0,
                     next_dir := 0\<rparr>) s3;
             parent = next_dir (directory_table s4 (current_directory s4))
         in if parent = 0
            then Some (dir_id, upd_dir (current_directory s4) (\<lambda>d. d\<lparr>next_dir := dir_id\<rparr>) s4)
            else (case last_dir_loop (directory_table s4) parent of
                    None \<Rightarrow> None
                  | Some parent' \<Rightarrow>
                      Some (dir_id, upd_dir parent' (\<lambda>d. d\<lparr>next_dir := dir_id\<rparr>) s4))))"

text \<open>
  \<^verbatim>\<open>delete_file\<close>: the loop looks for \<open>file_id\<close> in the chain of its parent directory and
  keeps the predecessor; it ends with the pair \<open>(prev_file, current_file)\<close>.
\<close>

partial_function (option) unlink_file_loop ::
  "(u32 \<Rightarrow> file_entry) \<Rightarrow> u32 \<Rightarrow> u32 \<Rightarrow> u32 \<Rightarrow> (u32 \<times> u32) option" where
  "unlink_file_loop ft file_id prev_file current_file =
     (if current_file \<noteq> file_id \<and> current_file \<noteq> 0
      then unlink_file_loop ft file_id current_file (next_file (ft current_file))
      else Some (prev_file, current_file))"

declare unlink_file_loop.simps [code]

definition delete_file :: "u32 \<Rightarrow> fs \<Rightarrow> (int \<times> fs) option" where
  "delete_file file_id s =
     (if file_id \<ge> next_file_id s then Some (-1, s)
      else
        (let parent_dir = f_parent_dir (file_table s file_id)
         in case unlink_file_loop (file_table s) file_id 0
                   (first_file (directory_table s parent_dir)) of
              None \<Rightarrow> None
            | Some (prev_file, current_file) \<Rightarrow>
                (let s1 = (if current_file = file_id
                           then (if prev_file = 0
                                 then upd_dir parent_dir
                                        (\<lambda>d. d\<lparr>first_file := next_file (file_table s file_id)\<rparr>) s
                                 else upd_file prev_file
                                        (\<lambda>e. e\<lparr>next_file := next_file (file_table s file_id)\<rparr>) s)
                           else s)
                 in Some (0, upd_file file_id (\<lambda>e. file_zero) s1))))"

text \<open>\<^verbatim>\<open>delete_directory\<close>, with the same loop over \<^verbatim>\<open>next_dir\<close>.\<close>

partial_function (option) unlink_dir_loop ::
  "(u32 \<Rightarrow> directory_entry) \<Rightarrow> u32 \<Rightarrow> u32 \<Rightarrow> u32 \<Rightarrow> (u32 \<times> u32) option" where
  "unlink_dir_loop dt dir_id prev_dir current_dir =
     (if current_dir \<noteq> dir_id \<and> current_dir \<noteq> 0
      then unlink_dir_loop dt dir_id current_dir (next_dir (dt current_dir))
      else Some (prev_dir, current_dir))"

declare unlink_dir_loop.simps [code]

definition delete_directory :: "u32 \<Rightarrow> fs \<Rightarrow> (int \<times> fs) option" where
  "delete_directory dir_id s =
     (if dir_id \<ge> next_dir_id s \<or> dir_id = 0 then Some (-1, s)
      else if first_file (directory_table s dir_id) \<noteq> 0 then Some (-2, s)
      else
        (let parent_dir = d_parent_dir (directory_table s dir_id)
         in case unlink_dir_loop (directory_table s) dir_id 0
                   (next_dir (directory_table s parent_dir)) of
              None \<Rightarrow> None
            | Some (prev_dir, current_dir) \<Rightarrow>
                (let s1 = (if current_dir = dir_id
                           then (if prev_dir = 0
                                 then upd_dir parent_dir
                                        (\<lambda>d. d\<lparr>next_dir := next_dir (directory_table s dir_id)\<rparr>) s
                                 else upd_dir prev_dir
                                        (\<lambda>d. d\<lparr>next_dir := next_dir (directory_table s dir_id)\<rparr>) s)
                           else s)
                 in Some (0, upd_dir dir_id (\<lambda>d. directory_zero) s1))))"

text \<open>\<^verbatim>\<open>find_file\<close> and \<^verbatim>\<open>find_directory\<close>; \<^verbatim>\<open>strcmp(a, b) == 0\<close> compares the strings.\<close>

partial_function (option) find_file_loop ::
  "(u32 \<Rightarrow> file_entry) \<Rightarrow> string \<Rightarrow> u32 \<Rightarrow> u32 option" where
  "find_file_loop ft name file_id =
     (if file_id \<noteq> 0
      then (if c_str (f_name (ft file_id)) = c_str name then Some file_id
            else find_file_loop ft name (next_file (ft file_id)))
      else Some NOT_FOUND)"

declare find_file_loop.simps [code]

definition find_file :: "string \<Rightarrow> u32 \<Rightarrow> fs \<Rightarrow> u32 option" where
  "find_file name parent_dir s =
     find_file_loop (file_table s) name (first_file (directory_table s parent_dir))"

partial_function (option) find_directory_loop ::
  "(u32 \<Rightarrow> directory_entry) \<Rightarrow> string \<Rightarrow> u32 \<Rightarrow> u32 option" where
  "find_directory_loop dt name dir_id =
     (if dir_id \<noteq> 0
      then (if c_str (d_name (dt dir_id)) = c_str name then Some dir_id
            else find_directory_loop dt name (next_dir (dt dir_id)))
      else Some NOT_FOUND)"

declare find_directory_loop.simps [code]

definition find_directory :: "string \<Rightarrow> u32 \<Rightarrow> fs \<Rightarrow> u32 option" where
  "find_directory name parent_dir s =
     find_directory_loop (directory_table s) name (next_dir (directory_table s parent_dir))"

text \<open>
  \<^verbatim>\<open>read_file\<close>. \<open>read_size\<close> is the value of \<^verbatim>\<open>size\<close> after the clamp (\<open>sz\<close>
  before it), the length given to \<^verbatim>\<open>memcpy\<close> and the value returned, converted to
  \<^verbatim>\<open>int\<close>. The index \<^verbatim>\<open>data_start + offset\<close> is a 32-bit sum; \<^verbatim>\<open>file_data\<close> has
  \<^verbatim>\<open>MAX_FILES * MAX_FILE_SIZE\<close> bytes, and a copy that does not end inside it is the
  fault \<open>OutOfBounds\<close>. \<open>buffer\<close> is the memory of the caller from the address it
  passes, which this model does not bound. The result is the returned value and the
  buffer.
\<close>

definition read_size :: "u32 \<Rightarrow> u32 \<Rightarrow> u32 \<Rightarrow> fs \<Rightarrow> u32" where
  "read_size file_id offset sz s =
     (if offset + sz > f_size (file_table s file_id)
      then f_size (file_table s file_id) - offset
      else sz)"

definition read_file ::
  "u32 \<Rightarrow> (nat \<Rightarrow> byte) \<Rightarrow> u32 \<Rightarrow> u32 \<Rightarrow> fs \<Rightarrow> fault + int \<times> (nat \<Rightarrow> byte)" where
  "read_file file_id buffer offset sz s =
     (if file_id \<ge> next_file_id s then Inr (-1, buffer)
      else
        (let clamped = read_size file_id offset sz s
         in if clamped > 0
            then (let start = unat (data_start (file_table s file_id) + offset)
                  in if start + unat clamped > unat MAX_FILES * unat MAX_FILE_SIZE
                     then Inl OutOfBounds
                     else Inr (sint clamped,
                               memcpy buffer 0 (file_data s) start (unat clamped)))
            else Inr (sint clamped, buffer)))"

text \<open>
  \<^verbatim>\<open>write_file\<close>, with the same bound on the copy into \<^verbatim>\<open>file_data\<close>; the result
  is the returned value and the new state.
\<close>

definition write_size :: "u32 \<Rightarrow> u32 \<Rightarrow> u32" where
  "write_size offset sz =
     (if offset + sz > MAX_FILE_SIZE then MAX_FILE_SIZE - offset else sz)"

definition write_file ::
  "u32 \<Rightarrow> (nat \<Rightarrow> byte) \<Rightarrow> u32 \<Rightarrow> u32 \<Rightarrow> fs \<Rightarrow> fault + int \<times> fs" where
  "write_file file_id data offset sz s =
     (if file_id \<ge> next_file_id s then Inr (-1, s)
      else
        (let clamped = write_size offset sz
         in if clamped > 0
            then (let start = unat (data_start (file_table s file_id) + offset)
                  in if start + unat clamped > unat MAX_FILES * unat MAX_FILE_SIZE
                     then Inl OutOfBounds
                     else
                       (let s1 = s\<lparr>file_data :=
                                     memcpy (file_data s) start data 0 (unat clamped)\<rparr>;
                            s2 = (if offset + clamped > f_size (file_table s1 file_id)
                                  then upd_file file_id (\<lambda>e. e\<lparr>f_size := offset + clamped\<rparr>) s1
                                  else s1)
                        in Inr (sint clamped, s2)))
            else Inr (sint clamped, s)))"

text \<open>
  \<^verbatim>\<open>list_directory\<close> walks the file chain of a directory and then its \<^verbatim>\<open>next_dir\<close>
  chain, and prints nothing. \<open>file_chain\<close> and \<open>dir_chain\<close> are the two loops, collecting
  the ids they visit: the file list and the directory list of \<open>dir_id\<close>.
\<close>

partial_function (option) file_chain :: "(u32 \<Rightarrow> file_entry) \<Rightarrow> u32 \<Rightarrow> u32 list \<Rightarrow> u32 list option" where
  "file_chain ft file_id acc =
     (if file_id \<noteq> 0
      then file_chain ft (next_file (ft file_id)) (acc @ [file_id])
      else Some acc)"

declare file_chain.simps [code]

partial_function (option) dir_chain :: "(u32 \<Rightarrow> directory_entry) \<Rightarrow> u32 \<Rightarrow> u32 list \<Rightarrow> u32 list option" where
  "dir_chain dt subdir_id acc =
     (if subdir_id \<noteq> 0
      then dir_chain dt (next_dir (dt subdir_id)) (acc @ [subdir_id])
      else Some acc)"

declare dir_chain.simps [code]

definition list_directory :: "u32 \<Rightarrow> fs \<Rightarrow> (u32 list \<times> u32 list) option" where
  "list_directory dir_id s =
     (if dir_id \<ge> next_dir_id s then Some ([], [])
      else (case file_chain (file_table s) (first_file (directory_table s dir_id)) [] of
              None \<Rightarrow> None
            | Some fs \<Rightarrow>
                (case dir_chain (directory_table s) (next_dir (directory_table s dir_id)) [] of
                   None \<Rightarrow> None
                 | Some ds \<Rightarrow> Some (fs, ds))))"

definition get_current_directory :: "fs \<Rightarrow> u32" where
  "get_current_directory s = current_directory s"

definition set_current_directory :: "u32 \<Rightarrow> fs \<Rightarrow> fs" where
  "set_current_directory dir_id s =
     (if dir_id < next_dir_id s then s\<lparr>current_directory := dir_id\<rparr> else s)"

text \<open>
  \<^verbatim>\<open>get_path_string\<close>. \<open>path\<close> is the string held in the static buffer \<^verbatim>\<open>path\<close>. The
  loop builds \<^verbatim>\<open>"/"\<close>, the name of \<open>current\<close> and \<open>path\<close> in \<^verbatim>\<open>temp_path\<close>, copies
  that back to \<^verbatim>\<open>path\<close> and moves to the parent, until \<open>current\<close> is 0. Both buffers
  have \<^verbatim>\<open>MAX_PATH_LENGTH\<close> (128) bytes, and a string of \<open>n\<close> characters takes \<open>n + 1\<close>
  with its NUL: the longest string written in a round is the one of the second
  \<^verbatim>\<open>strcat\<close> (a name has 32 characters at most, so the first \<^verbatim>\<open>strcat\<close> fits), and when
  it has 128 characters or more the result is the fault \<open>BufferOverflow\<close>.
  \<^verbatim>\<open>directory_table\<close> has \<^verbatim>\<open>MAX_DIRECTORIES\<close> entries; reading the entry of another id is
  the fault \<open>OutOfBounds\<close>. A walk that never reaches 0 is the value \<open>None\<close>.
\<close>

partial_function (option) path_loop ::
  "(u32 \<Rightarrow> directory_entry) \<Rightarrow> u32 \<Rightarrow> string \<Rightarrow> (fault + string) option" where
  "path_loop dt current path =
     (if current \<noteq> 0
      then (if current \<ge> MAX_DIRECTORIES then Some (Inl OutOfBounds)
            else (let temp_path = ''/'' @ c_str (d_name (dt current)) @ path
                  in if length temp_path \<ge> MAX_PATH_LENGTH then Some (Inl BufferOverflow)
                     else path_loop dt (d_parent_dir (dt current)) temp_path))
      else Some (Inr path))"

declare path_loop.simps [code]

definition get_path_string :: "u32 \<Rightarrow> fs \<Rightarrow> (fault + string) option" where
  "get_path_string dir_id s =
     (case path_loop (directory_table s) dir_id [] of
        None \<Rightarrow> None
      | Some (Inl f) \<Rightarrow> Some (Inl f)
      | Some (Inr path) \<Rightarrow> Some (Inr (if path = [] then ''/'' else path)))"

text \<open>
  The same walk with no bound on the string: the path of a directory, whatever its
  length. It is not part of the source, and states which paths fit the buffers.
\<close>

partial_function (option) full_path ::
  "(u32 \<Rightarrow> directory_entry) \<Rightarrow> u32 \<Rightarrow> string \<Rightarrow> string option" where
  "full_path dt current path =
     (if current \<noteq> 0
      then full_path dt (d_parent_dir (dt current)) (''/'' @ c_str (d_name (dt current)) @ path)
      else Some path)"

declare full_path.simps [code]

section \<open>States used as examples\<close>

text \<open>
  The kernel after \<^verbatim>\<open>init_memory\<close> and \<^verbatim>\<open>init_processes\<close> on the static values, a
  kernel whose bitmap has every bit set, and one whose process table is full.
\<close>

definition blank_screen :: "int \<Rightarrow> u16" where
  "blank_screen = (\<lambda>_. 0)"

definition kernel_boot :: kernel where
  "kernel_boot = init_processes (init_memory (kernel_static blank_screen))"

definition kernel_full :: kernel where
  "kernel_full = (kernel_static blank_screen)\<lparr>memory_bitmap := (\<lambda>_. 0xFFFFFFFF)\<rparr>"

definition kernel_busy :: kernel where
  "kernel_busy = kernel_boot\<lparr>processes := (\<lambda>_. process_zero\<lparr>pid := 1, state := 1\<rparr>), next_pid := 11\<rparr>"



text \<open>
  The file system after \<^verbatim>\<open>init_filesystem\<close> on the static values, and two byte
  regions for the callers' buffers.
\<close>

definition fs_boot :: fs where
  "fs_boot = (case init_filesystem fs_static of Some s \<Rightarrow> s | None \<Rightarrow> fs_static)"

definition zero_bytes :: "nat \<Rightarrow> byte" where
  "zero_bytes = (\<lambda>_. 0)"

definition count_bytes :: "nat \<Rightarrow> byte" where
  "count_bytes = (\<lambda>i. of_nat i)"

section \<open>Kernel: reachable states\<close>


text \<open>
  The number of process slots in use, and what the reached states keep: the pid counter
  is one more than that number, and every slot has its 32 bytes of name.
\<close>

definition used_slots :: "kernel \<Rightarrow> nat" where
  "used_slots k = length (filter (\<lambda>i. pid (processes k i) \<noteq> 0) [0..MAX_PROCESSES - 1])"


section \<open>File system: invariant and reachable states\<close>

text \<open>
  What the operations keep true of the tables: the id counters stay within the tables,
  the current directory exists, the data offset follows the file counter, the root is
  its own parent and every other directory has a parent of smaller id, a \<^verbatim>\<open>next_dir\<close>
  link is 0 or leads to a larger id below the counter, and a file has at most
  \<^verbatim>\<open>MAX_FILE_SIZE\<close> bytes in a partition inside \<^verbatim>\<open>file_data\<close>.
\<close>

definition fs_inv :: "fs \<Rightarrow> bool" where
  "fs_inv s \<longleftrightarrow>
     next_file_id s \<le> MAX_FILES \<and>
     0 < next_dir_id s \<and> next_dir_id s \<le> MAX_DIRECTORIES \<and>
     current_directory s < next_dir_id s \<and>
     data_offset s = next_file_id s * MAX_FILE_SIZE \<and>
     d_parent_dir (directory_table s 0) = 0 \<and>
     (\<forall>d. 0 < d \<and> d < MAX_DIRECTORIES \<longrightarrow> d_parent_dir (directory_table s d) < d) \<and>
     (\<forall>d. d < MAX_DIRECTORIES \<longrightarrow>
        next_dir (directory_table s d) = 0 \<or>
        (d < next_dir (directory_table s d) \<and> next_dir (directory_table s d) < next_dir_id s)) \<and>
     (\<forall>f. f < MAX_FILES \<longrightarrow>
        f_size (file_table s f) \<le> MAX_FILE_SIZE \<and>
        data_start (file_table s f) \<le> (MAX_FILES - 1) * MAX_FILE_SIZE)"

text \<open>
  The states the file system reaches: \<^verbatim>\<open>init_filesystem\<close> first, then any of the
  operations that change the state, whenever it returns.
\<close>

inductive fs_reachable :: "fs \<Rightarrow> bool" where
  reach_init: "init_filesystem s0 = Some s \<Longrightarrow> fs_reachable s"
| reach_create_file:
    "fs_reachable s \<Longrightarrow> create_file name type perms s = Some (r, s') \<Longrightarrow> fs_reachable s'"
| reach_create_directory:
    "fs_reachable s \<Longrightarrow> create_directory name s = Some (r, s') \<Longrightarrow> fs_reachable s'"
| reach_delete_file:
    "fs_reachable s \<Longrightarrow> delete_file file_id s = Some (e, s') \<Longrightarrow> fs_reachable s'"
| reach_delete_directory:
    "fs_reachable s \<Longrightarrow> delete_directory dir_id s = Some (e, s') \<Longrightarrow> fs_reachable s'"
| reach_write_file:
    "fs_reachable s \<Longrightarrow> write_file file_id data offset sz s = Inr (e, s') \<Longrightarrow> fs_reachable s'"
| reach_set_current_directory:
    "fs_reachable s \<Longrightarrow> fs_reachable (set_current_directory dir_id s)"

text \<open>
  States reached from \<open>fs_boot\<close>: a directory "etc" under the root; then a file "passwd"
  created inside it; a directory "a" under the root; then a directory "b" created inside
  "a".
\<close>

definition fs_etc :: fs where
  "fs_etc = (case create_directory ''etc'' fs_boot of Some (d, s) \<Rightarrow> s | None \<Rightarrow> fs_boot)"

definition fs_etc_passwd :: fs where
  "fs_etc_passwd =
     (case create_file ''passwd'' FILE_TYPE_REGULAR PERM_READ (set_current_directory 1 fs_etc) of
        Some (f, s) \<Rightarrow> s
      | None \<Rightarrow> fs_etc)"

definition fs_a :: fs where
  "fs_a = (case create_directory ''a'' fs_boot of Some (d, s) \<Rightarrow> s | None \<Rightarrow> fs_boot)"

definition fs_a_b :: fs where
  "fs_a_b =
     (case create_directory ''b'' (set_current_directory 1 fs_a) of
        Some (d, s) \<Rightarrow> s
      | None \<Rightarrow> fs_a)"

text \<open>
  Five directories with a name of 31 characters, each created inside the one before:
  the path of the fifth has 160 characters.
\<close>

definition long_name :: string where
  "long_name = replicate 31 (CHR ''a'')"

definition fs_deep1 :: fs where
  "fs_deep1 = (case create_directory long_name fs_boot of Some (d, s) \<Rightarrow> s | None \<Rightarrow> fs_boot)"

definition fs_deep2 :: fs where
  "fs_deep2 =
     (case create_directory long_name (set_current_directory 1 fs_deep1) of
        Some (d, s) \<Rightarrow> s
      | None \<Rightarrow> fs_deep1)"

definition fs_deep3 :: fs where
  "fs_deep3 =
     (case create_directory long_name (set_current_directory 2 fs_deep2) of
        Some (d, s) \<Rightarrow> s
      | None \<Rightarrow> fs_deep2)"

definition fs_deep4 :: fs where
  "fs_deep4 =
     (case create_directory long_name (set_current_directory 3 fs_deep3) of
        Some (d, s) \<Rightarrow> s
      | None \<Rightarrow> fs_deep3)"

definition fs_deep5 :: fs where
  "fs_deep5 =
     (case create_directory long_name (set_current_directory 4 fs_deep4) of
        Some (d, s) \<Rightarrow> s
      | None \<Rightarrow> fs_deep4)"

text \<open>The state after \<^verbatim>\<open>delete_file(1)\<close> on \<open>fs_boot\<close>.\<close>

definition fs_no_shell :: fs where
  "fs_no_shell = (case delete_file 1 fs_boot of Some (e, s) \<Rightarrow> s | None \<Rightarrow> fs_boot)"

section \<open>Proofs: page allocator\<close>

lemma word_not_full: "(w::u32) \<noteq> 0xFFFFFFFF \<Longrightarrow> \<exists>j<32. \<not> bit w j"
proof (rule ccontr)
  assume a: "w \<noteq> 0xFFFFFFFF" and "\<not> (\<exists>j<32. \<not> bit w j)"
  then have "\<forall>j<32. bit w j" by blast
  then have "w = -1" by (auto simp: bit_eq_iff dest: bit_imp_le_length)
  with a show False by simp
qed

lemma word_full: "bit (0xFFFFFFFF::u32) j = (j < 32)"
proof -
  have "(0xFFFFFFFF::u32) = -1" by simp
  then show ?thesis by (simp only: bit_minus_1_iff) simp
qed

lemma scan_bits_Some:
  "scan_bits w j = Some r \<Longrightarrow> j \<le> r \<and> r < 32 \<and> \<not> bit w r \<and> (\<forall>n. j \<le> n \<and> n < r \<longrightarrow> bit w n)"
proof (induction w j rule: scan_bits.induct)
  case (1 w j)
  show ?case
  proof (cases "j < 32")
    case False
    with "1.prems" show ?thesis by (simp add: scan_bits.simps)
  next
    case lt: True
    show ?thesis
    proof (cases "bit w j")
      case False
      with lt "1.prems" show ?thesis by (auto simp add: scan_bits.simps [of w j] and_exp_eq_0_iff_not_bit)
    next
      case True
      with lt "1.prems" have "scan_bits w (Suc j) = Some r"
        by (simp add: scan_bits.simps [of w j] and_exp_eq_0_iff_not_bit)
      with "1.IH" lt True have "Suc j \<le> r \<and> r < 32 \<and> \<not> bit w r \<and> (\<forall>n. Suc j \<le> n \<and> n < r \<longrightarrow> bit w n)"
        by (simp add: and_exp_eq_0_iff_not_bit)
      with True show ?thesis
        by (metis Suc_leD le_neq_implies_less Suc_leI)
    qed
  qed
qed

lemma scan_bits_None:
  "scan_bits w j = None \<Longrightarrow> j \<le> n \<Longrightarrow> n < 32 \<Longrightarrow> bit w n"
proof (induction w j rule: scan_bits.induct)
  case (1 w j)
  from "1.prems" have lt: "j < 32" by simp
  show ?case
  proof (cases "bit w j")
    case False
    with lt "1.prems" show ?thesis by (simp add: scan_bits.simps [of w j] and_exp_eq_0_iff_not_bit)
  next
    case True
    with lt "1.prems" have n: "scan_bits w (Suc j) = None"
      by (simp add: scan_bits.simps [of w j] and_exp_eq_0_iff_not_bit)
    show ?thesis
    proof (cases "n = j")
      case True with \<open>bit w j\<close> show ?thesis by simp
    next
      case False
      with "1.prems" have "Suc j \<le> n" by simp
      with "1.IH" lt True n "1.prems" show ?thesis by (simp add: and_exp_eq_0_iff_not_bit)
    qed
  qed
qed

lemma page_split: "n div 32 = i \<Longrightarrow> i * 32 + n mod 32 = (n::nat)"
  by auto

lemma word_all_bits: "(\<And>j. j < 32 \<Longrightarrow> bit (w::u32) j) \<Longrightarrow> w = 0xFFFFFFFF"
  using word_not_full by blast

lemma scan_bits_first:
  assumes "r < 32" "\<not> bit w r" "\<And>j. j < r \<Longrightarrow> bit w j"
  shows "scan_bits w 0 = Some r"
proof (cases "scan_bits w 0")
  case None
  from scan_bits_None [OF None, of r] assms show ?thesis by simp
next
  case (Some r')
  from scan_bits_Some [OF Some] have r': "r' < 32" "\<not> bit w r'" "\<forall>n. n < r' \<longrightarrow> bit w n"
    by auto
  from r' assms have "r' = r" by (meson linorder_neqE_nat)
  with Some show ?thesis by simp
qed

lemma scan_words_free:
  assumes "i * 32 \<le> n" "n < MAX_PAGES" "\<not> page_allocated bm n"
    and "\<And>m. i * 32 \<le> m \<Longrightarrow> m < n \<Longrightarrow> page_allocated bm m"
  shows "scan_words bm i =
           (page_address n, bm(n div 32 := bm (n div 32) OR push_bit (n mod 32) 1))"
  using assms
proof (induction bm i rule: scan_words.induct)
  case (1 bm i)
  from "1.prems"(1,2) have lt: "i < MAX_PAGES div 32" by (simp add: MAX_PAGES_def)
  have le: "i \<le> n div 32" using "1.prems"(1) by (simp add: less_eq_div_iff_mult_less_eq)
  show ?case
  proof (cases "n div 32 = i")
    case True
    have nf: "\<not> bit (bm i) (n mod 32)"
      using "1.prems"(3) True by (simp add: page_allocated_def)
    have "bit (bm i) j" if "j < n mod 32" for j
    proof -
      have "i * 32 \<le> i * 32 + j" by simp
      moreover have "i * 32 + j < n" using that page_split [OF True] by linarith
      ultimately have "page_allocated bm (i * 32 + j)" by (rule "1.prems"(4))
      moreover have "j < 32" using that by (meson less_trans mod_less_divisor zero_less_numeral)
      ultimately show ?thesis by (simp add: page_allocated_def)
    qed
    with nf have sb: "scan_bits (bm i) 0 = Some (n mod 32)"
      by (intro scan_bits_first) auto
    have ne: "bm i \<noteq> 0xFFFFFFFF"
      using nf word_full [of "n mod 32"] by auto
    have "scan_words bm i =
            (word_of_int (MEMORY_START + (int (i * 32 + n mod 32) * PAGE_SIZE)),
             bm(i := bm i OR push_bit (n mod 32) 1))"
      using lt ne sb by (simp add: scan_words.simps [of bm i])
    then show ?thesis
      unfolding page_split [OF True] page_address_def True .
  next
    case False
    with le have less: "i < n div 32" by simp
    from less have "Suc i \<le> n div 32" by simp
    then have S: "Suc i * 32 \<le> n" by (simp only: less_eq_div_iff_mult_less_eq)
    have full: "bm i = 0xFFFFFFFF"
    proof (rule word_all_bits)
      fix j :: nat assume j: "j < 32"
      have "i * 32 + j < n" using S j by simp
      then have "page_allocated bm (i * 32 + j)" by (intro "1.prems"(4)) simp
      with j show "bit (bm i) j" by (simp add: page_allocated_def)
    qed
    from S have "scan_words bm (Suc i) =
           (page_address n, bm(n div 32 := bm (n div 32) OR push_bit (n mod 32) 1))"
      using lt full "1.prems" by (intro "1.IH"(2)) auto
    moreover from lt full have "scan_words bm i = scan_words bm (Suc i)"
      by (simp add: scan_words.simps [of bm i])
    ultimately show ?thesis by (simp only:)
  qed
qed

lemma scan_words_full:
  assumes "\<And>m. i * 32 \<le> m \<Longrightarrow> m < MAX_PAGES \<Longrightarrow> page_allocated bm m"
  shows "scan_words bm i = (0, bm)"
  using assms
proof (induction bm i rule: scan_words.induct)
  case (1 bm i)
  show ?case
  proof (cases "i < MAX_PAGES div 32")
    case False
    then show ?thesis by (simp add: scan_words.simps [of bm i])
  next
    case lt: True
    have full: "bm i = 0xFFFFFFFF"
    proof (rule word_all_bits)
      fix j :: nat assume j: "j < 32"
      have "i * 32 + j < MAX_PAGES" using lt j by (simp add: MAX_PAGES_def)
      then have "page_allocated bm (i * 32 + j)" by (intro "1.prems") simp
      with j show "bit (bm i) j" by (simp add: page_allocated_def)
    qed
    have "scan_words bm (Suc i) = (0, bm)"
      using lt full "1.prems" by (intro "1.IH"(2)) auto
    moreover from lt full have "scan_words bm i = scan_words bm (Suc i)"
      by (simp add: scan_words.simps [of bm i])
    ultimately show ?thesis by (simp only:)
  qed
qed

lemma page_index_of_address:
  assumes "n < MAX_PAGES"
  shows "(page_address n - word_of_int MEMORY_START) div word_of_int PAGE_SIZE = (of_nat n :: u32)"
proof -
  have a: "page_address n - word_of_int MEMORY_START = (of_nat (n * 4096) :: u32)"
    by (simp add: page_address_def PAGE_SIZE_def)
  have b: "unat (of_nat (n * 4096) :: u32) = n * 4096"
    by (rule of_nat_inverse [OF refl]) (use assms in \<open>simp add: MAX_PAGES_def\<close>)
  have "unat ((of_nat (n * 4096) :: u32) div 4096) = n * 4096 div unat (4096 :: u32)"
    by (simp only: unat_div b)
  then have "unat ((of_nat (n * 4096) :: u32) div 4096) = n"
    by simp
  then have "of_nat (unat ((of_nat (n * 4096) :: u32) div 4096)) = (of_nat n :: u32)"
    by (simp only:)
  then have "(of_nat (n * 4096) :: u32) div 4096 = of_nat n"
    by simp
  with a show ?thesis by (simp add: PAGE_SIZE_def)
qed

lemma free_page_bitmap:
  assumes "n < MAX_PAGES"
  shows "free_page (page_address n) k =
           k\<lparr>memory_bitmap := (memory_bitmap k)
                (n div 32 := memory_bitmap k (n div 32) AND NOT (push_bit (n mod 32) 1))\<rparr>"
proof -
  have n: "n < 2 ^ 32" using assms by (simp add: MAX_PAGES_def)
  have d: "unat ((of_nat n :: u32) div 32) = n div 32"
    using n by (simp add: unat_div unat_of_nat)
  have m: "unat ((of_nat n :: u32) mod 32) = n mod 32"
    using n by (simp add: unat_mod unat_of_nat)
  show ?thesis
    unfolding free_page_def page_index_of_address [OF assms] Let_def d m ..
qed

lemma uint_page_address:
  "n < MAX_PAGES \<Longrightarrow> uint (page_address n) = MEMORY_START + int n * PAGE_SIZE"
proof -
  assume "n < MAX_PAGES"
  then have "MEMORY_START + int n * PAGE_SIZE < 2 ^ 32" "0 \<le> MEMORY_START + int n * PAGE_SIZE"
    by (simp_all add: MAX_PAGES_def MEMORY_START_def PAGE_SIZE_def)
  then show ?thesis
    unfolding page_address_def by (intro word_of_int_inverse [OF refl]) simp_all
qed

lemma page_allocated_set:
  "page_allocated (bm(n div 32 := bm (n div 32) OR push_bit (n mod 32) 1)) m =
     (page_allocated bm m \<or> m = n)"
proof (cases "m div 32 = n div 32")
  case True
  have "m mod 32 = n mod 32 \<longleftrightarrow> m = n" using True by (metis div_mod_decomp)
  with True show ?thesis
    by (auto simp: page_allocated_def bit_or_iff bit_exp_iff)
next
  case False
  then show ?thesis by (auto simp: page_allocated_def)
qed

lemma page_allocated_clear:
  "page_allocated (bm(n div 32 := bm (n div 32) AND NOT (push_bit (n mod 32) 1))) m =
     (page_allocated bm m \<and> m \<noteq> n)"
proof (cases "m div 32 = n div 32")
  case True
  have "m mod 32 = n mod 32 \<longleftrightarrow> m = n" using True by (metis div_mod_decomp)
  with True show ?thesis
    by (auto simp: page_allocated_def bit_and_iff bit_not_iff bit_exp_iff)
next
  case False
  then show ?thesis by (auto simp: page_allocated_def)
qed

lemma page_address_nonzero: "n < MAX_PAGES \<Longrightarrow> page_address n \<noteq> 0"
proof
  assume n: "n < MAX_PAGES" and "page_address n = 0"
  then have "uint (page_address n) = 0" by simp
  with uint_page_address [OF n] show False
    by (simp add: MEMORY_START_def PAGE_SIZE_def)
qed

lemma scan_words_cases:
  "(\<exists>n<MAX_PAGES. \<not> page_allocated bm n \<and> (\<forall>m<n. page_allocated bm m)
       \<and> scan_words bm 0 =
           (page_address n, bm(n div 32 := bm (n div 32) OR push_bit (n mod 32) 1)))
   \<or> ((\<forall>m<MAX_PAGES. page_allocated bm m) \<and> scan_words bm 0 = (0, bm))"
proof (cases "\<forall>m<MAX_PAGES. page_allocated bm m")
  case True
  then have "scan_words bm 0 = (0, bm)" by (intro scan_words_full) auto
  with True show ?thesis by simp
next
  case False
  then obtain x where x: "x < MAX_PAGES" "\<not> page_allocated bm x" by blast
  define n where "n = (LEAST n. \<not> page_allocated bm n)"
  have free: "\<not> page_allocated bm n" unfolding n_def using x(2) by (rule LeastI)
  have "n \<le> x" unfolding n_def using x(2) by (rule Least_le)
  with x(1) have lt: "n < MAX_PAGES" by simp
  have low: "\<forall>m<n. page_allocated bm m"
    using not_less_Least unfolding n_def by blast
  from lt free low have "scan_words bm 0 =
      (page_address n, bm(n div 32 := bm (n div 32) OR push_bit (n mod 32) 1))"
    by (intro scan_words_free) auto
  with lt free low show ?thesis by blast
qed

text \<open>
  Claim C2. \<^verbatim>\<open>allocate_page\<close> is a first-fit scan. If page \<open>n\<close> is the free page of lowest
  index among the 1024, the call sets the bit of \<open>n\<close> and no other, and returns
  \<open>MEMORY_START + n * PAGE_SIZE\<close>, which is not 0 and lies in the pool; the page
  returned had its bit clear. If every page is allocated, the call returns 0 and changes
  nothing. After \<^verbatim>\<open>free_page\<close> on the address of page \<open>n\<close>, the bit of \<open>n\<close> is clear and
  the others are as before; the next \<^verbatim>\<open>allocate_page\<close> returns a page of index at most
  \<open>n\<close>, and page \<open>n\<close> itself when the pages below it are allocated. Conversely, a
  result other than 0 is the address of the lowest free page, whose bit was clear, and the
  result 0 means that every page was allocated.
\<close>

theorem allocate_page_first_fit:
  "(n < MAX_PAGES \<and> \<not> page_allocated (memory_bitmap k) n
      \<and> (\<forall>m<n. page_allocated (memory_bitmap k) m) \<longrightarrow>
      allocate_page k =
        (page_address n,
         k\<lparr>memory_bitmap := (memory_bitmap k)
              (n div 32 := memory_bitmap k (n div 32) OR push_bit (n mod 32) 1)\<rparr>)
      \<and> (\<forall>m. page_allocated (memory_bitmap (snd (allocate_page k))) m
               = (page_allocated (memory_bitmap k) m \<or> m = n))
      \<and> fst (allocate_page k) \<noteq> 0
      \<and> uint (fst (allocate_page k)) = MEMORY_START + int n * PAGE_SIZE
      \<and> MEMORY_START \<le> uint (fst (allocate_page k))
      \<and> uint (fst (allocate_page k)) < MEMORY_START + int MAX_PAGES * PAGE_SIZE)
   \<and> ((\<forall>m<MAX_PAGES. page_allocated (memory_bitmap k) m) \<longrightarrow> allocate_page k = (0, k))
   \<and> (n < MAX_PAGES \<longrightarrow>
        (\<forall>m. page_allocated (memory_bitmap (free_page (page_address n) k)) m
               = (page_allocated (memory_bitmap k) m \<and> m \<noteq> n))
        \<and> ((\<forall>m<n. page_allocated (memory_bitmap k) m) \<longrightarrow>
               fst (allocate_page (free_page (page_address n) k)) = page_address n)
        \<and> (\<exists>m\<le>n. fst (allocate_page (free_page (page_address n) k)) = page_address m))
   \<and> (fst (allocate_page k) \<noteq> 0 \<longrightarrow>
        (\<exists>m<MAX_PAGES. fst (allocate_page k) = page_address m
            \<and> \<not> page_allocated (memory_bitmap k) m
            \<and> (\<forall>j<m. page_allocated (memory_bitmap k) j)))
   \<and> (fst (allocate_page k) = 0 \<longrightarrow> (\<forall>m<MAX_PAGES. page_allocated (memory_bitmap k) m))"
proof (intro conjI impI)
  assume a: "n < MAX_PAGES \<and> \<not> page_allocated (memory_bitmap k) n
      \<and> (\<forall>m<n. page_allocated (memory_bitmap k) m)"
  then have n: "n < MAX_PAGES" by simp
  from a have sw: "scan_words (memory_bitmap k) 0 =
      (page_address n, (memory_bitmap k)
         (n div 32 := memory_bitmap k (n div 32) OR push_bit (n mod 32) 1))"
    by (intro scan_words_free) auto
  then show r: "allocate_page k =
        (page_address n,
         k\<lparr>memory_bitmap := (memory_bitmap k)
              (n div 32 := memory_bitmap k (n div 32) OR push_bit (n mod 32) 1)\<rparr>)"
    by (simp add: allocate_page_def)
  show "\<forall>m. page_allocated (memory_bitmap (snd (allocate_page k))) m
               = (page_allocated (memory_bitmap k) m \<or> m = n)"
    using page_allocated_set [of "memory_bitmap k" n] unfolding r by simp
  show "fst (allocate_page k) \<noteq> 0"
    unfolding r using page_address_nonzero [OF n] by simp
  show u: "uint (fst (allocate_page k)) = MEMORY_START + int n * PAGE_SIZE"
    unfolding r using uint_page_address [OF n] by simp
  show "MEMORY_START \<le> uint (fst (allocate_page k))"
    unfolding u by (simp add: PAGE_SIZE_def)
  show "uint (fst (allocate_page k)) < MEMORY_START + int MAX_PAGES * PAGE_SIZE"
    unfolding u using n by (simp add: PAGE_SIZE_def)
next
  assume "\<forall>m<MAX_PAGES. page_allocated (memory_bitmap k) m"
  then have "scan_words (memory_bitmap k) 0 = (0, memory_bitmap k)"
    by (intro scan_words_full) auto
  then show "allocate_page k = (0, k)"
    by (simp add: allocate_page_def)
next
  assume n: "n < MAX_PAGES"
  let ?k = "free_page (page_address n) k"
  show f: "\<forall>m. page_allocated (memory_bitmap ?k) m
               = (page_allocated (memory_bitmap k) m \<and> m \<noteq> n)"
    using page_allocated_clear [of "memory_bitmap k" n] by (simp add: free_page_bitmap [OF n])
  have free: "\<not> page_allocated (memory_bitmap ?k) n" using f by simp
  show "\<exists>m\<le>n. fst (allocate_page ?k) = page_address m"
  proof -
    from scan_words_cases [of "memory_bitmap ?k"] free n
    obtain m where m: "\<not> page_allocated (memory_bitmap ?k) m"
      "\<forall>j<m. page_allocated (memory_bitmap ?k) j"
      "scan_words (memory_bitmap ?k) 0 =
         (page_address m, (memory_bitmap ?k)
            (m div 32 := memory_bitmap ?k (m div 32) OR push_bit (m mod 32) 1))"
      by blast
    from m(2) free have "m \<le> n" by (meson not_le_imp_less)
    moreover from m(3) have "fst (allocate_page ?k) = page_address m"
      by (simp add: allocate_page_def)
    ultimately show ?thesis by blast
  qed
  show "fst (allocate_page ?k) = page_address n" if "\<forall>m<n. page_allocated (memory_bitmap k) m"
  proof -
    from that f have "\<forall>m<n. page_allocated (memory_bitmap ?k) m" by simp
    with free n have "scan_words (memory_bitmap ?k) 0 =
      (page_address n, (memory_bitmap ?k)
         (n div 32 := memory_bitmap ?k (n div 32) OR push_bit (n mod 32) 1))"
      by (intro scan_words_free) auto
    then show ?thesis by (simp add: allocate_page_def)
  qed
next
  assume nz: "fst (allocate_page k) \<noteq> 0"
  from scan_words_cases [of "memory_bitmap k"]
  show "\<exists>m<MAX_PAGES. fst (allocate_page k) = page_address m
            \<and> \<not> page_allocated (memory_bitmap k) m
            \<and> (\<forall>j<m. page_allocated (memory_bitmap k) j)"
  proof
    assume "\<exists>n<MAX_PAGES. \<not> page_allocated (memory_bitmap k) n
       \<and> (\<forall>m<n. page_allocated (memory_bitmap k) m)
       \<and> scan_words (memory_bitmap k) 0 =
           (page_address n, (memory_bitmap k)
              (n div 32 := memory_bitmap k (n div 32) OR push_bit (n mod 32) 1))"
    then show ?thesis by (auto simp: allocate_page_def)
  next
    assume "(\<forall>m<MAX_PAGES. page_allocated (memory_bitmap k) m)
       \<and> scan_words (memory_bitmap k) 0 = (0, memory_bitmap k)"
    with nz show ?thesis by (simp add: allocate_page_def)
  qed
next
  assume z: "fst (allocate_page k) = 0"
  from scan_words_cases [of "memory_bitmap k"]
  show "\<forall>m<MAX_PAGES. page_allocated (memory_bitmap k) m"
  proof
    assume "\<exists>n<MAX_PAGES. \<not> page_allocated (memory_bitmap k) n
       \<and> (\<forall>m<n. page_allocated (memory_bitmap k) m)
       \<and> scan_words (memory_bitmap k) 0 =
           (page_address n, (memory_bitmap k)
              (n div 32 := memory_bitmap k (n div 32) OR push_bit (n mod 32) 1))"
    then obtain x where "x < MAX_PAGES" "fst (allocate_page k) = page_address x"
      by (auto simp: allocate_page_def)
    with z page_address_nonzero [of x] show ?thesis by simp
  next
    assume "(\<forall>m<MAX_PAGES. page_allocated (memory_bitmap k) m)
       \<and> scan_words (memory_bitmap k) 0 = (0, memory_bitmap k)"
    then show ?thesis by simp
  qed
qed

lemma init_memory_bitmap:
  "memory_bitmap (init_memory k) i = (if i = 0 then 0xF else if i < 32 then 0 else memory_bitmap k i)"
proof -
  have "init_memory_loop n bm i = (if i < n then 0 else bm i)" for n bm
    by (induction n) auto
  then show ?thesis by (simp add: init_memory_def MAX_PAGES_def)
qed

lemma kernel_boot_bitmap:
  "memory_bitmap kernel_boot i = (if i = 0 then 0xF else 0)"
  by (simp add: kernel_boot_def init_processes_def init_memory_bitmap kernel_static_def)

lemma kernel_boot_pages:
  "m \<le> 4 \<Longrightarrow> page_allocated (memory_bitmap kernel_boot) m = (m < 4)"
proof -
  assume "m \<le> 4"
  then have "m = 0 \<or> m = 1 \<or> m = 2 \<or> m = 3 \<or> m = 4" by arith
  then show ?thesis by (auto simp: page_allocated_def kernel_boot_bitmap)
qed

theorem allocate_page_first_fit_witness:
  "fst (allocate_page kernel_boot) = 0x104000
   \<and> allocate_page kernel_full = (0, kernel_full)
   \<and> fst (allocate_page (free_page (page_address 4) kernel_boot)) = 0x104000"
proof -
  have lt: "(4::nat) < MAX_PAGES" by (simp add: MAX_PAGES_def)
  have low: "\<forall>m<4. page_allocated (memory_bitmap kernel_boot) m"
    by (simp add: kernel_boot_pages)
  have free: "\<not> page_allocated (memory_bitmap kernel_boot) 4"
    by (simp add: kernel_boot_pages)
  have "bit (0xFFFFFFFF::u32) (m mod 32)" for m :: nat
    by (simp only: word_full)
  then have full: "\<forall>m<MAX_PAGES. page_allocated (memory_bitmap kernel_full) m"
    by (simp add: page_allocated_def kernel_full_def)
  have addr: "page_address 4 = 0x104000"
    by (simp add: page_address_def MEMORY_START_def PAGE_SIZE_def)
  from allocate_page_first_fit [of 4 kernel_boot] lt low free
  have "fst (allocate_page kernel_boot) = page_address 4"
    and "fst (allocate_page (free_page (page_address 4) kernel_boot)) = page_address 4"
    by simp_all
  moreover from allocate_page_first_fit [of 0 kernel_full] full
  have "allocate_page kernel_full = (0, kernel_full)" by simp
  ultimately show ?thesis by (simp add: addr)
qed

section \<open>Proofs: C strings\<close>



lemma c_str_no_NUL: "NUL \<notin> set (c_str s)"
  unfolding c_str_def by (induction s) auto




lemma c_str_append_NUL: "NUL \<notin> set xs \<Longrightarrow> c_str (xs @ NUL # ys) = xs"
  unfolding c_str_def by (induction xs) auto


section \<open>Proofs: processes and system calls\<close>







lemma c_str_Nil: "c_str [] = []"
  by (simp add: c_str_def)

lemma c_str_eval: "c_str (c # cs) = (if c = CHR 0x00 then [] else c # c_str cs)"
  by (simp add: c_str_def NUL_def)

subsection \<open>Reachable states of the kernel\<close>


lemma int32_wraps: "int32 (2147483647 + 1) = - 2147483648"
  by (simp add: int32_def)



lemma used_slots_bound: "used_slots k \<le> 10"
proof -
  have "used_slots k \<le> length [0..MAX_PROCESSES - 1]"
    unfolding used_slots_def by (rule length_filter_le)
  then show ?thesis by (simp add: MAX_PROCESSES_def)
qed














subsection \<open>Process creation and exit\<close>











text \<open>
  Claim C5. \<^verbatim>\<open>handle_system_call\<close> with \<^verbatim>\<open>SYS_EXIT\<close> sets the state of the current
  process to 3 and changes nothing else: the slot keeps its pid (so a nonzero pid stays
  nonzero) and its other fields, the other slots, the memory bitmap (so the bit of the
  stack page stays set), the pid counter, the current process and the screen are as
  before. Nothing is reclaimed. The variables of the file system are static in
  filesystem.c and are no part of the state this function works on.
\<close>

theorem sys_exit_only_sets_state:
  fixes k :: kernel and mem :: "u32 \<Rightarrow> string" and arg1 arg2 arg3 :: u32
  defines "k' \<equiv> handle_system_call mem SYS_EXIT arg1 arg2 arg3 k"
    and "cp \<equiv> current_process k"
  shows "state (processes k' cp) = 3
       \<and> pid (processes k' cp) = pid (processes k cp)
       \<and> (pid (processes k cp) \<noteq> 0 \<longrightarrow> pid (processes k' cp) \<noteq> 0)
       \<and> stack_ptr (processes k' cp) = stack_ptr (processes k cp)
       \<and> code_ptr (processes k' cp) = code_ptr (processes k cp)
       \<and> p_name (processes k' cp) = p_name (processes k cp)
       \<and> (\<forall>i. i \<noteq> cp \<longrightarrow> processes k' i = processes k i)
       \<and> memory_bitmap k' = memory_bitmap k
       \<and> (\<forall>n. page_allocated (memory_bitmap k') n = page_allocated (memory_bitmap k) n)
       \<and> next_pid k' = next_pid k
       \<and> current_process k' = current_process k
       \<and> current_row k' = current_row k
       \<and> current_col k' = current_col k
       \<and> video_memory k' = video_memory k
       \<and> k' = k\<lparr>processes := (processes k)(cp := (processes k cp)\<lparr>state := 3\<rparr>)\<rparr>"
  by (simp add: k'_def cp_def handle_system_call_def upd_process_def
      SYS_EXIT_def SYS_WRITE_def SYS_READ_def)

lemma kernel_busy_fields:
  "current_process kernel_busy = 0" "processes kernel_busy i = process_zero\<lparr>pid := 1, state := 1\<rparr>"
  by (simp_all add: kernel_busy_def kernel_boot_def init_processes_def init_memory_def
      kernel_static_def)

theorem sys_exit_only_sets_state_witness:
  "state (processes (handle_system_call (\<lambda>_. []) SYS_EXIT 0 0 0 kernel_busy) 0) = 3
   \<and> pid (processes (handle_system_call (\<lambda>_. []) SYS_EXIT 0 0 0 kernel_busy) 0) = 1
   \<and> state (processes (handle_system_call (\<lambda>_. []) SYS_EXIT 0 0 0 kernel_busy) 1) = 1"
  using sys_exit_only_sets_state [of "\<lambda>_. []" 0 0 0 kernel_busy]
  by (simp add: kernel_busy_fields)

section \<open>Proofs: file system, basic facts\<close>

lemma upd_file_simps:
  "file_table (upd_file i f s) = (file_table s)(i := f (file_table s i))"
  "directory_table (upd_file i f s) = directory_table s"
  "file_data (upd_file i f s) = file_data s"
  "next_file_id (upd_file i f s) = next_file_id s"
  "next_dir_id (upd_file i f s) = next_dir_id s"
  "current_directory (upd_file i f s) = current_directory s"
  "data_offset (upd_file i f s) = data_offset s"
  by (simp_all add: upd_file_def)

lemma upd_dir_simps:
  "file_table (upd_dir i f s) = file_table s"
  "directory_table (upd_dir i f s) = (directory_table s)(i := f (directory_table s i))"
  "file_data (upd_dir i f s) = file_data s"
  "next_file_id (upd_dir i f s) = next_file_id s"
  "next_dir_id (upd_dir i f s) = next_dir_id s"
  "current_directory (upd_dir i f s) = current_directory s"
  "data_offset (upd_dir i f s) = data_offset s"
  by (simp_all add: upd_dir_def)

lemma c_str_append: "NUL \<notin> set xs \<Longrightarrow> c_str (xs @ zs) = xs @ c_str zs"
  unfolding c_str_def by (induction xs) auto

lemma c_str_hd_NUL: "zs = [] \<or> hd zs = NUL \<Longrightarrow> c_str zs = []"
  unfolding c_str_def by (cases zs) auto

lemma c_str_strcpy: "c_str (strcpy dst src) = c_str src"
  by (simp add: strcpy_def c_str_append_NUL c_str_no_NUL)

lemma c_str_strncpy:
  "c_str ((strncpy dst src (MAX_FILENAME - 1))[MAX_FILENAME - 1 := NUL]) = take 31 (c_str src)"
proof -
  let ?t = "take 31 (c_str src)"
  let ?k = "31 - length (c_str src)"
  let ?zs = "(replicate ?k NUL @ drop 31 dst)[31 - length ?t := NUL]"
  have t: "NUL \<notin> set ?t" using c_str_no_NUL [of src] by (auto dest: in_set_takeD)
  have "(strncpy dst src 31)[31 := NUL] = ?t @ ?zs"
    by (simp add: strncpy_def list_update_append)
  moreover have "?zs = [] \<or> hd ?zs = NUL"
  proof (cases ?k)
    case 0
    then have "31 - length ?t = 0" by simp
    with 0 show ?thesis by (cases "drop 31 dst") simp_all
  next
    case (Suc n)
    then show ?thesis by (cases "31 - length ?t") simp_all
  qed
  ultimately show ?thesis using t by (simp add: c_str_append c_str_hd_NUL MAX_FILENAME_def)
qed

lemma c_str_strncpy_Suc:
  "c_str ((strncpy dst src (MAX_FILENAME - Suc 0))[MAX_FILENAME - Suc 0 := NUL]) = take 31 (c_str src)"
  using c_str_strncpy [of dst src] by simp

text \<open>The state after \<^verbatim>\<open>init_filesystem\<close>, from any state.\<close>

lemma init_filesystem_result:
  "\<exists>s. init_filesystem s0 = Some s
     \<and> next_file_id s = 3 \<and> next_dir_id s = 1 \<and> current_directory s = 0
     \<and> data_offset s = 3 * MAX_FILE_SIZE
     \<and> first_file (directory_table s 0) = 1 \<and> next_dir (directory_table s 0) = 0
     \<and> d_parent_dir (directory_table s 0) = 0 \<and> c_str (d_name (directory_table s 0)) = ''/''
     \<and> (\<forall>d. 0 < d \<and> d < MAX_DIRECTORIES \<longrightarrow> directory_table s d = directory_zero)
     \<and> c_str (f_name (file_table s 0)) = ''kernel.bin''
     \<and> c_str (f_name (file_table s 1)) = ''shell.bin''
     \<and> c_str (f_name (file_table s 2)) = ''init.bin''
     \<and> next_file (file_table s 0) = 0 \<and> next_file (file_table s 1) = 2
     \<and> next_file (file_table s 2) = 0
     \<and> f_parent_dir (file_table s 0) = 0 \<and> f_parent_dir (file_table s 1) = 0
     \<and> f_parent_dir (file_table s 2) = 0
     \<and> data_start (file_table s 0) = 0 \<and> data_start (file_table s 1) = MAX_FILE_SIZE
     \<and> data_start (file_table s 2) = 2 * MAX_FILE_SIZE
     \<and> (\<forall>f. f < MAX_FILES \<longrightarrow> f_size (file_table s f) = 0
            \<and> data_start (file_table s f) \<le> 2 * MAX_FILE_SIZE)
     \<and> (\<forall>i. i < unat MAX_FILES * unat MAX_FILE_SIZE \<longrightarrow> file_data s i = 0)"
  by (simp add: init_filesystem_def create_file_def upd_dir_def upd_file_def Let_def
      memset_table_def memset_bytes_def last_file_loop.simps
      MAX_FILES_def MAX_FILE_SIZE_def MAX_DIRECTORIES_def NOT_FOUND_def
      c_str_strncpy_Suc c_str_strcpy c_str_Nil c_str_eval word_le_nat_alt word_less_nat_alt
      file_zero_def directory_zero_def)

lemma bit31_int: "0 \<le> k \<Longrightarrow> k < 2 ^ 32 \<Longrightarrow> bit (k::int) 31 = (2 ^ 31 \<le> k)"
proof -
  assume k: "0 \<le> k" "k < 2 ^ 32"
  have "k div 2 ^ 31 = (if 2 ^ 31 \<le> k then 1 else 0)"
    using k by (auto simp: div_pos_pos_trivial intro!: int_div_pos_eq [where r = "k - 2 ^ 31"])
  then show ?thesis by (simp add: bit_iff_odd)
qed

lemma sint_u32:
  "sint (w :: u32) = (if unat w < 2 ^ 31 then int (unat w) else int (unat w) - 2 ^ 32)"
proof -
  have u: "0 \<le> uint w" "uint w < 2 ^ 32" using uint_lt2p [of w] by simp_all
  have "sint w = signed_take_bit 31 (uint w)" by (simp add: sint_uint)
  also have "\<dots> = take_bit 32 (uint w) - 2 ^ 32 * of_bool (bit (uint w) 31)"
    by (simp add: signed_take_bit_eq_take_bit_minus)
  also have "take_bit 32 (uint w) = uint w" using u by (simp add: take_bit_int_eq_self)
  finally have "sint w = uint w - 2 ^ 32 * of_bool (2 ^ 31 \<le> uint w)"
    using bit31_int [OF u] by simp
  moreover have "uint w = int (unat w)" by simp
  ultimately show ?thesis by (auto simp del: of_nat_unat)
qed

lemma unat_lt_2p32: "unat (w :: u32) < 2 ^ 32"
  using unsigned_less [of w] by simp

text \<open>The file list of a directory is empty exactly when \<^verbatim>\<open>first_file\<close> is 0.\<close>

lemma file_chain_length:
  "file_chain ft f acc = Some fl \<Longrightarrow>
     length acc \<le> length fl \<and> (f \<noteq> 0 \<longrightarrow> length acc < length fl)"
proof (induction rule: file_chain.raw_induct [rotated, consumes 1, case_names step])
  case (step loop ft f acc fl)
  show ?case
  proof (cases "f = 0")
    case True
    with step(2) show ?thesis by simp
  next
    case False
    with step(2) have "loop ft (next_file (ft f)) (acc @ [f]) = Some fl" by simp
    from step(1) [OF this] show ?thesis by simp
  qed
qed

text \<open>
  Claim C6. \<^verbatim>\<open>delete_directory\<close> on a directory other than the root whose file list is
  not empty (\<^verbatim>\<open>list_directory\<close> finds a file in it; equivalently, the id is below
  \<^verbatim>\<open>next_dir_id\<close> and \<^verbatim>\<open>first_file\<close> is not 0) returns -2, "not empty", and changes
  nothing: the entry, the directory table and the rest of the state are as before.
  On the root, id 0, it returns -1 and changes nothing.
\<close>

theorem delete_directory_not_empty_or_root:
  "(list_directory dir_id s = Some (fl, dl) \<and> fl \<noteq> [] \<and> dir_id \<noteq> 0 \<longrightarrow>
      delete_directory dir_id s = Some (-2, s))
   \<and> (dir_id < next_dir_id s \<and> dir_id \<noteq> 0 \<and> first_file (directory_table s dir_id) \<noteq> 0 \<longrightarrow>
      delete_directory dir_id s = Some (-2, s))
   \<and> delete_directory 0 s = Some (-1, s)"
proof (intro conjI impI)
  assume a: "list_directory dir_id s = Some (fl, dl) \<and> fl \<noteq> [] \<and> dir_id \<noteq> 0"
  then have lt: "\<not> next_dir_id s \<le> dir_id"
    by (auto simp: list_directory_def split: if_splits)
  with a have "file_chain (file_table s) (first_file (directory_table s dir_id)) [] = Some fl"
    by (auto simp: list_directory_def split: option.splits)
  with a have "first_file (directory_table s dir_id) \<noteq> 0"
    by (auto simp: file_chain.simps [of _ 0])
  with a lt show "delete_directory dir_id s = Some (-2, s)"
    by (simp add: delete_directory_def)
next
  assume "dir_id < next_dir_id s \<and> dir_id \<noteq> 0 \<and> first_file (directory_table s dir_id) \<noteq> 0"
  then show "delete_directory dir_id s = Some (-2, s)"
    by (simp add: delete_directory_def linorder_not_le)
next
  show "delete_directory 0 s = Some (-1, s)"
    by (simp add: delete_directory_def)
qed

lemma fs_boot_facts:
  "next_file_id fs_boot = 3" "next_dir_id fs_boot = 1" "current_directory fs_boot = 0"
  "data_offset fs_boot = 3 * MAX_FILE_SIZE"
  "first_file (directory_table fs_boot 0) = 1" "next_dir (directory_table fs_boot 0) = 0"
  "d_parent_dir (directory_table fs_boot 0) = 0"
  "c_str (d_name (directory_table fs_boot 0)) = ''/''"
  "c_str (f_name (file_table fs_boot 0)) = ''kernel.bin''"
  "c_str (f_name (file_table fs_boot 1)) = ''shell.bin''"
  "c_str (f_name (file_table fs_boot 2)) = ''init.bin''"
  "next_file (file_table fs_boot 0) = 0" "next_file (file_table fs_boot 1) = 2"
  "next_file (file_table fs_boot 2) = 0"
  "f_parent_dir (file_table fs_boot 0) = 0" "f_parent_dir (file_table fs_boot 1) = 0"
  "f_parent_dir (file_table fs_boot 2) = 0"
  "data_start (file_table fs_boot 0) = 0" "data_start (file_table fs_boot 1) = MAX_FILE_SIZE"
  "data_start (file_table fs_boot 2) = 2 * MAX_FILE_SIZE"
  and fs_boot_dirs: "\<And>d. 0 < d \<Longrightarrow> d < MAX_DIRECTORIES \<Longrightarrow> directory_table fs_boot d = directory_zero"
  and fs_boot_sizes: "\<And>f. f < MAX_FILES \<Longrightarrow> f_size (file_table fs_boot f) = 0"
  and fs_boot_init: "init_filesystem fs_static = Some fs_boot"
proof -
  from init_filesystem_result [of fs_static] obtain s where
    s: "init_filesystem fs_static = Some s"
     "next_file_id s = 3 \<and> next_dir_id s = 1 \<and> current_directory s = 0
     \<and> data_offset s = 3 * MAX_FILE_SIZE
     \<and> first_file (directory_table s 0) = 1 \<and> next_dir (directory_table s 0) = 0
     \<and> d_parent_dir (directory_table s 0) = 0 \<and> c_str (d_name (directory_table s 0)) = ''/''
     \<and> (\<forall>d. 0 < d \<and> d < MAX_DIRECTORIES \<longrightarrow> directory_table s d = directory_zero)
     \<and> c_str (f_name (file_table s 0)) = ''kernel.bin''
     \<and> c_str (f_name (file_table s 1)) = ''shell.bin''
     \<and> c_str (f_name (file_table s 2)) = ''init.bin''
     \<and> next_file (file_table s 0) = 0 \<and> next_file (file_table s 1) = 2
     \<and> next_file (file_table s 2) = 0
     \<and> f_parent_dir (file_table s 0) = 0 \<and> f_parent_dir (file_table s 1) = 0
     \<and> f_parent_dir (file_table s 2) = 0
     \<and> data_start (file_table s 0) = 0 \<and> data_start (file_table s 1) = MAX_FILE_SIZE
     \<and> data_start (file_table s 2) = 2 * MAX_FILE_SIZE
     \<and> (\<forall>f. f < MAX_FILES \<longrightarrow> f_size (file_table s f) = 0
            \<and> data_start (file_table s f) \<le> 2 * MAX_FILE_SIZE)
     \<and> (\<forall>i. i < unat MAX_FILES * unat MAX_FILE_SIZE \<longrightarrow> file_data s i = 0)"
    by blast
  from s(1) have b: "fs_boot = s" by (simp add: fs_boot_def)
  from s(1) show "init_filesystem fs_static = Some fs_boot" unfolding b .
  from s(2) show
    "next_file_id fs_boot = 3" "next_dir_id fs_boot = 1" "current_directory fs_boot = 0"
    "data_offset fs_boot = 3 * MAX_FILE_SIZE"
    "first_file (directory_table fs_boot 0) = 1" "next_dir (directory_table fs_boot 0) = 0"
    "d_parent_dir (directory_table fs_boot 0) = 0"
    "c_str (d_name (directory_table fs_boot 0)) = ''/''"
    "c_str (f_name (file_table fs_boot 0)) = ''kernel.bin''"
    "c_str (f_name (file_table fs_boot 1)) = ''shell.bin''"
    "c_str (f_name (file_table fs_boot 2)) = ''init.bin''"
    "next_file (file_table fs_boot 0) = 0" "next_file (file_table fs_boot 1) = 2"
    "next_file (file_table fs_boot 2) = 0"
    "f_parent_dir (file_table fs_boot 0) = 0" "f_parent_dir (file_table fs_boot 1) = 0"
    "f_parent_dir (file_table fs_boot 2) = 0"
    "data_start (file_table fs_boot 0) = 0" "data_start (file_table fs_boot 1) = MAX_FILE_SIZE"
    "data_start (file_table fs_boot 2) = 2 * MAX_FILE_SIZE"
    unfolding b by blast+
  from s(2) show "\<And>d. 0 < d \<Longrightarrow> d < MAX_DIRECTORIES \<Longrightarrow> directory_table fs_boot d = directory_zero"
    unfolding b by blast
  from s(2) show "\<And>f. f < MAX_FILES \<Longrightarrow> f_size (file_table fs_boot f) = 0"
    unfolding b by blast
qed

section \<open>Proofs: file system, scenarios\<close>

lemmas fs_eval = Let_def upd_dir_simps upd_file_simps fs_boot_facts
  MAX_FILES_def MAX_FILE_SIZE_def MAX_DIRECTORIES_def NOT_FOUND_def
  c_str_strncpy_Suc c_str_Nil c_str_eval word_le_nat_alt word_less_nat_alt

lemma fs_a_create: "create_directory ''a'' fs_boot = Some (1, fs_a)"
  by (simp add: fs_a_def create_directory_def fs_eval)

lemma fs_a_facts:
  "next_dir_id fs_a = 2" "current_directory fs_a = 0"
  "next_dir (directory_table fs_a 0) = 1" "next_dir (directory_table fs_a 1) = 0"
  "d_parent_dir (directory_table fs_a 1) = 0"
  "c_str (d_name (directory_table fs_a 1)) = ''a''"
  by (simp_all add: fs_a_def create_directory_def fs_eval)

lemma fs_a_b_create: "create_directory ''b'' (set_current_directory 1 fs_a) = Some (2, fs_a_b)"
  by (simp add: fs_a_b_def create_directory_def set_current_directory_def fs_a_facts fs_eval)

lemma fs_a_b_facts:
  "next_dir_id fs_a_b = 3" "current_directory fs_a_b = 1"
  "next_dir (directory_table fs_a_b 0) = 1" "next_dir (directory_table fs_a_b 1) = 2"
  "next_dir (directory_table fs_a_b 2) = 0"
  "d_parent_dir (directory_table fs_a_b 1) = 0"
  "d_parent_dir (directory_table fs_a_b 2) = 1"
  "c_str (d_name (directory_table fs_a_b 1)) = ''a''"
  "c_str (d_name (directory_table fs_a_b 2)) = ''b''"
  by (simp_all add: fs_a_b_def create_directory_def set_current_directory_def fs_a_facts fs_eval)

text \<open>
  Claim C8. After \<^verbatim>\<open>init_filesystem\<close>, \<^verbatim>\<open>create_directory("a")\<close> under the root gives
  directory 1; after \<^verbatim>\<open>set_current_directory(1)\<close>, \<^verbatim>\<open>create_directory("b")\<close> gives
  directory 2, whose \<^verbatim>\<open>parent_dir\<close> is 1. Since \<^verbatim>\<open>next_dir\<close> of "a" is both the link to
  its first subdirectory and the link to its next sibling, "b" is on the chain of the
  root: \<^verbatim>\<open>find_directory("b", 0)\<close> returns 2, a directory whose parent is not 0.
\<close>

theorem find_directory_finds_grandchild:
  "create_directory ''a'' fs_boot = Some (1, fs_a)
   \<and> create_directory ''b'' (set_current_directory 1 fs_a) = Some (2, fs_a_b)
   \<and> find_directory ''b'' 0 fs_a_b = Some 2
   \<and> d_parent_dir (directory_table fs_a_b 2) = 1
   \<and> d_parent_dir (directory_table fs_a_b 2) \<noteq> 0"
  by (simp add: fs_a_create fs_a_b_create fs_a_b_facts find_directory_def
      find_directory_loop.simps c_str_Nil c_str_eval)

lemma fs_no_shell_delete: "delete_file 1 fs_boot = Some (0, fs_no_shell)"
  by (simp add: fs_no_shell_def delete_file_def unlink_file_loop.simps fs_eval)

lemma fs_no_shell_facts:
  "next_dir_id fs_no_shell = 1"
  "first_file (directory_table fs_no_shell 0) = 2"
  "next_dir (directory_table fs_no_shell 0) = 0"
  "next_file (file_table fs_no_shell 2) = 0"
  "c_str (f_name (file_table fs_no_shell 2)) = ''init.bin''"
  by (simp_all add: fs_no_shell_def delete_file_def unlink_file_loop.simps fs_eval)

text \<open>
  Claim C1, on the code. After \<^verbatim>\<open>init_filesystem\<close> the file list of the root holds the
  two ids 1 and 2 only: the file "kernel.bin" has id 0 and the root as parent, but 0 is
  also the mark of an empty list, so the second \<^verbatim>\<open>create_file\<close> finds \<^verbatim>\<open>first_file == 0\<close>
  and overwrites it. \<^verbatim>\<open>find_file("kernel.bin", 0)\<close> returns the not-found value. The rest
  of the scenario holds: \<^verbatim>\<open>find_file("shell.bin", 0)\<close> returns 1, and after
  \<^verbatim>\<open>delete_file(1)\<close> it returns the not-found value and the list has one entry less.
\<close>

theorem init_filesystem_root_list:
  "init_filesystem fs_static = Some fs_boot
   \<and> list_directory 0 fs_boot = Some ([1, 2], [])
   \<and> c_str (f_name (file_table fs_boot 0)) = ''kernel.bin''
   \<and> f_parent_dir (file_table fs_boot 0) = 0
   \<and> find_file ''kernel.bin'' 0 fs_boot = Some 0xFFFFFFFF
   \<and> find_file ''shell.bin'' 0 fs_boot = Some 1
   \<and> delete_file 1 fs_boot = Some (0, fs_no_shell)
   \<and> find_file ''shell.bin'' 0 fs_no_shell = Some 0xFFFFFFFF
   \<and> list_directory 0 fs_no_shell = Some ([2], [])"
  by (simp add: fs_boot_init fs_no_shell_delete fs_no_shell_facts fs_boot_facts
      list_directory_def find_file_def file_chain.simps dir_chain.simps find_file_loop.simps
      NOT_FOUND_def c_str_Nil c_str_eval word_le_nat_alt)

lemma fs_etc_create: "create_directory ''etc'' fs_boot = Some (1, fs_etc)"
  by (simp add: fs_etc_def create_directory_def fs_eval)

lemma fs_etc_facts:
  "next_dir_id fs_etc = 2" "current_directory fs_etc = 0" "next_file_id fs_etc = 3"
  "next_dir (directory_table fs_etc 0) = 1" "next_dir (directory_table fs_etc 1) = 0"
  "first_file (directory_table fs_etc 1) = 0"
  "d_parent_dir (directory_table fs_etc 1) = 0"
  "c_str (d_name (directory_table fs_etc 1)) = ''etc''"
  by (simp_all add: fs_etc_def create_directory_def fs_eval)

lemma fs_etc_passwd_facts:
  "next_dir_id fs_etc_passwd = 2"
  "first_file (directory_table fs_etc_passwd 1) = 3"
  "next_file (file_table fs_etc_passwd 3) = 0"
  "next_dir (directory_table fs_etc_passwd 1) = 0"
  by (simp_all add: fs_etc_passwd_def create_file_def set_current_directory_def fs_etc_facts
      Let_def upd_dir_simps upd_file_simps MAX_FILES_def word_le_nat_alt word_less_nat_alt)

theorem delete_directory_not_empty_or_root_witness:
  "list_directory 1 fs_etc_passwd = Some ([3], [])
   \<and> delete_directory 1 fs_etc_passwd = Some (-2, fs_etc_passwd)
   \<and> delete_directory 0 fs_etc_passwd = Some (-1, fs_etc_passwd)"
proof -
  have l: "list_directory 1 fs_etc_passwd = Some ([3], [])"
    by (simp add: list_directory_def fs_etc_passwd_facts file_chain.simps dir_chain.simps
        word_le_nat_alt)
  have h: "(1::u32) < next_dir_id fs_etc_passwd \<and> (1::u32) \<noteq> 0
           \<and> first_file (directory_table fs_etc_passwd 1) \<noteq> 0"
    by (simp add: fs_etc_passwd_facts word_less_nat_alt)
  from delete_directory_not_empty_or_root [of 1 fs_etc_passwd "[3]" "[]"] l h
  show ?thesis by simp
qed

section \<open>Proofs: file system invariant\<close>

lemma u32_succ:
  assumes "(x :: u32) < n"
  shows "x + 1 \<le> n" and "x < x + 1" and "unat (x + 1) = Suc (unat x)" and "x + 1 \<noteq> 0"
proof -
  have "unat x < unat n" using assms by (simp add: word_less_nat_alt)
  moreover have "unat n < 2 ^ 32" by (rule unat_lt_2p32)
  ultimately have "unat x + unat (1 :: u32) < 2 ^ LENGTH(32)" by simp
  then have u: "unat (x + 1) = unat x + unat (1 :: u32)"
    by (rule unat_add_lem [THEN iffD1])
  then show s: "unat (x + 1) = Suc (unat x)" by simp
  from s \<open>unat x < unat n\<close> show "x + 1 \<le> n" by (simp add: word_le_nat_alt)
  from s show "x < x + 1" by (simp add: word_less_nat_alt)
  from s show "x + 1 \<noteq> 0" by (metis Zero_not_Suc unat_0)
qed

text \<open>
  The loops over \<^verbatim>\<open>next_dir\<close> return when every link is 0 or leads to a larger id below
  \<open>n\<close>.
\<close>

lemma last_dir_loop_total:
  assumes ch: "\<And>d. d < MAX_DIRECTORIES \<Longrightarrow>
                 next_dir (dt d) = 0 \<or> (d < next_dir (dt d) \<and> next_dir (dt d) < n)"
    and n: "n \<le> MAX_DIRECTORIES" and p: "p < n"
  shows "\<exists>q. last_dir_loop dt p = Some q \<and> q < n \<and> next_dir (dt q) = 0"
  using p
proof (induction "unat n - unat p" arbitrary: p rule: less_induct)
  case less
  have p50: "p < MAX_DIRECTORIES" using less.prems n by simp
  show ?case
  proof (cases "next_dir (dt p) = 0")
    case True
    then show ?thesis using less.prems by (simp add: last_dir_loop.simps [of dt p])
  next
    case False
    with ch [OF p50] have lt: "p < next_dir (dt p)" "next_dir (dt p) < n" by auto
    then have "unat n - unat (next_dir (dt p)) < unat n - unat p"
      by (simp add: word_less_nat_alt)
    from less.hyps [OF this lt(2)] obtain q where
      "last_dir_loop dt (next_dir (dt p)) = Some q" "q < n" "next_dir (dt q) = 0" by blast
    then show ?thesis using False by (simp add: last_dir_loop.simps [of dt p])
  qed
qed

lemma unlink_dir_loop_total:
  assumes ch: "\<And>d. d < MAX_DIRECTORIES \<Longrightarrow>
                 next_dir (dt d) = 0 \<or> (d < next_dir (dt d) \<and> next_dir (dt d) < n)"
    and n: "n \<le> MAX_DIRECTORIES"
    and c: "cur = 0 \<or> cur < n"
    and pr: "prev = 0 \<or> (prev < MAX_DIRECTORIES \<and> next_dir (dt prev) = cur)"
  shows "\<exists>prev' cur'. unlink_dir_loop dt dir_id prev cur = Some (prev', cur')
           \<and> (cur' = dir_id \<or> cur' = 0)
           \<and> (prev' = 0 \<or> (prev' < MAX_DIRECTORIES \<and> next_dir (dt prev') = cur'))"
  using c pr
proof (induction "if cur = 0 then 0 else Suc (unat n - unat cur)" arbitrary: prev cur rule: less_induct)
  case less
  show ?case
  proof (cases "cur \<noteq> dir_id \<and> cur \<noteq> 0")
    case False
    then have "unlink_dir_loop dt dir_id prev cur = Some (prev, cur)"
      by (subst unlink_dir_loop.simps) auto
    with False less.prems show ?thesis by auto
  next
    case True
    with less.prems(1) have cn: "cur < n" by simp
    then have c50: "cur < MAX_DIRECTORIES" using n by simp
    let ?nx = "next_dir (dt cur)"
    have m: "(if ?nx = 0 then 0 else Suc (unat n - unat ?nx))
               < (if cur = 0 then 0 else Suc (unat n - unat cur))"
      using ch [OF c50] True cn by (auto simp: word_less_nat_alt)
    have c': "?nx = 0 \<or> ?nx < n" using ch [OF c50] by auto
    have p': "cur = 0 \<or> (cur < MAX_DIRECTORIES \<and> next_dir (dt cur) = ?nx)" using c50 by simp
    from less.hyps [OF m c' p'] obtain prev' cur' where
      "unlink_dir_loop dt dir_id cur ?nx = Some (prev', cur')"
      "cur' = dir_id \<or> cur' = 0"
      "prev' = 0 \<or> (prev' < MAX_DIRECTORIES \<and> next_dir (dt prev') = cur')" by blast
    moreover have "unlink_dir_loop dt dir_id prev cur = unlink_dir_loop dt dir_id cur ?nx"
      using True by (subst unlink_dir_loop.simps) auto
    ultimately show ?thesis by auto
  qed
qed

lemma fs_inv_init: "init_filesystem s0 = Some s \<Longrightarrow> fs_inv s"
proof -
  assume a: "init_filesystem s0 = Some s"
  from init_filesystem_result [of s0] a have
    f: "next_file_id s = 3" "next_dir_id s = 1" "current_directory s = 0"
      "data_offset s = 3 * MAX_FILE_SIZE"
      "next_dir (directory_table s 0) = 0" "d_parent_dir (directory_table s 0) = 0"
    and d: "\<forall>d. 0 < d \<and> d < MAX_DIRECTORIES \<longrightarrow> directory_table s d = directory_zero"
    and fl: "\<forall>f. f < MAX_FILES \<longrightarrow> f_size (file_table s f) = 0
            \<and> data_start (file_table s f) \<le> 2 * MAX_FILE_SIZE"
    by auto
  have nd: "next_dir (directory_table s d) = 0" if "d < MAX_DIRECTORIES" for d
  proof (cases "d = 0")
    case True with f show ?thesis by simp
  next
    case False
    then have "0 < d" by (simp add: word_neq_0_conv)
    with d that show ?thesis by (simp add: directory_zero_def)
  qed
  have pd: "d_parent_dir (directory_table s d) < d" if "0 < d" "d < MAX_DIRECTORIES" for d
    using d that by (simp add: directory_zero_def)
  have fs: "f_size (file_table s f) \<le> MAX_FILE_SIZE
            \<and> data_start (file_table s f) \<le> (MAX_FILES - 1) * MAX_FILE_SIZE" if "f < MAX_FILES" for f
  proof -
    from fl that have "f_size (file_table s f) = 0"
      and "data_start (file_table s f) \<le> 2 * MAX_FILE_SIZE" by auto
    moreover have "2 * MAX_FILE_SIZE \<le> (MAX_FILES - 1) * MAX_FILE_SIZE"
      by (simp add: MAX_FILE_SIZE_def MAX_FILES_def)
    ultimately show ?thesis by auto
  qed
  show ?thesis
    unfolding fs_inv_def using f nd pd fs
    by (simp add: MAX_FILES_def MAX_DIRECTORIES_def)
qed

lemma create_file_frame:
  assumes "create_file name t p s = Some (r, s')" "next_file_id s < MAX_FILES"
  shows "r = next_file_id s" "next_file_id s' = next_file_id s + 1"
    "next_dir_id s' = next_dir_id s" "current_directory s' = current_directory s"
    "data_offset s' = data_offset s + MAX_FILE_SIZE" "file_data s' = file_data s"
    "\<And>d. d_parent_dir (directory_table s' d) = d_parent_dir (directory_table s d)"
    "\<And>d. next_dir (directory_table s' d) = next_dir (directory_table s d)"
    "\<And>f. f_size (file_table s' f) = (if f = next_file_id s then 0 else f_size (file_table s f))"
    "\<And>f. data_start (file_table s' f)
            = (if f = next_file_id s then data_offset s else data_start (file_table s f))"
proof -
  have nle: "\<not> MAX_FILES \<le> next_file_id s" using assms(2) by simp
  show "r = next_file_id s" "next_file_id s' = next_file_id s + 1"
    "next_dir_id s' = next_dir_id s" "current_directory s' = current_directory s"
    "data_offset s' = data_offset s + MAX_FILE_SIZE" "file_data s' = file_data s"
    "\<And>d. d_parent_dir (directory_table s' d) = d_parent_dir (directory_table s d)"
    "\<And>d. next_dir (directory_table s' d) = next_dir (directory_table s d)"
    "\<And>f. f_size (file_table s' f) = (if f = next_file_id s then 0 else f_size (file_table s f))"
    "\<And>f. data_start (file_table s' f)
            = (if f = next_file_id s then data_offset s else data_start (file_table s f))"
    using assms(1) nle
    by (auto simp: create_file_def Let_def upd_file_simps upd_dir_simps
        split: if_splits option.splits)
qed

lemma partition_bound:
  assumes "(x :: u32) < MAX_FILES"
  shows "x * MAX_FILE_SIZE \<le> (MAX_FILES - 1) * MAX_FILE_SIZE"
    and "unat (x * MAX_FILE_SIZE) = unat x * 4096"
proof -
  have x: "unat x < 100" using assms by (simp add: word_less_nat_alt MAX_FILES_def)
  have "unat (x * 4096) = unat x * unat (4096 :: u32)"
    using x by (intro unat_mult_lem [THEN iffD1]) simp
  then show u: "unat (x * MAX_FILE_SIZE) = unat x * 4096" by (simp add: MAX_FILE_SIZE_def)
  with x show "x * MAX_FILE_SIZE \<le> (MAX_FILES - 1) * MAX_FILE_SIZE"
    by (simp add: word_le_nat_alt MAX_FILES_def MAX_FILE_SIZE_def)
qed

lemma fs_inv_create_file:
  assumes "fs_inv s" "create_file name t p s = Some (r, s')"
  shows "fs_inv s'"
proof (cases "next_file_id s < MAX_FILES")
  case False
  with assms show ?thesis by (simp add: create_file_def linorder_not_less)
next
  case True
  note fr = create_file_frame [OF assms(2) True]
  from assms(1) have i: "data_offset s = next_file_id s * MAX_FILE_SIZE"
    by (simp add: fs_inv_def)
  have "data_offset s' = (next_file_id s + 1) * MAX_FILE_SIZE"
    by (simp add: fr i distrib_right)
  moreover have "next_file_id s + 1 \<le> MAX_FILES" using True by (rule u32_succ)
  moreover have "data_offset s \<le> (MAX_FILES - 1) * MAX_FILE_SIZE"
    unfolding i using True by (rule partition_bound)
  ultimately show ?thesis
    using assms(1) unfolding fs_inv_def by (simp add: fr)
qed

text \<open>
  \<^verbatim>\<open>create_directory\<close> returns on a state with the invariant: the new entry is linked
  after a directory \<open>x\<close> that existed before and had no \<^verbatim>\<open>next_dir\<close>.
\<close>

lemma create_directory_result:
  assumes inv: "fs_inv s" and lt: "next_dir_id s < MAX_DIRECTORIES"
  shows "\<exists>x. x < next_dir_id s \<and> next_dir (directory_table s x) = 0 \<and>
           create_directory name s =
             Some (next_dir_id s,
               upd_dir x (\<lambda>d. d\<lparr>next_dir := next_dir_id s\<rparr>)
                 (upd_dir (next_dir_id s)
                    (\<lambda>d. d\<lparr>d_name := (strncpy (d_name d) name (MAX_FILENAME - 1))[MAX_FILENAME - 1 := NUL],
                           d_parent_dir := current_directory s, first_file := 0, next_dir := 0\<rparr>)
                    (s\<lparr>next_dir_id := next_dir_id s + 1\<rparr>)))"
proof -
  let ?n = "next_dir_id s"
  let ?new = "\<lambda>d. d\<lparr>d_name := (strncpy (d_name d) name (MAX_FILENAME - 1))[MAX_FILENAME - 1 := NUL],
                      d_parent_dir := current_directory s, first_file := 0, next_dir := 0\<rparr>"
  let ?s4 = "upd_dir ?n ?new (s\<lparr>next_dir_id := ?n + 1\<rparr>)"
  let ?dt = "directory_table ?s4"
  from inv have cur: "current_directory s < ?n" and n50: "?n \<le> MAX_DIRECTORIES"
    and ch: "\<And>d. d < MAX_DIRECTORIES \<Longrightarrow> next_dir (directory_table s d) = 0 \<or>
               (d < next_dir (directory_table s d) \<and> next_dir (directory_table s d) < ?n)"
    by (simp_all add: fs_inv_def)
  have nle: "\<not> MAX_DIRECTORIES \<le> ?n" using lt by simp
  have s4: "create_directory name s =
      (if next_dir (?dt (current_directory s)) = 0
       then Some (?n, upd_dir (current_directory s) (\<lambda>d. d\<lparr>next_dir := ?n\<rparr>) ?s4)
       else (case last_dir_loop ?dt (next_dir (?dt (current_directory s))) of
               None \<Rightarrow> None
             | Some parent' \<Rightarrow> Some (?n, upd_dir parent' (\<lambda>d. d\<lparr>next_dir := ?n\<rparr>) ?s4)))"
    using nle by (simp add: create_directory_def Let_def upd_dir_def cong: option.case_cong)
  have ch4: "next_dir (?dt d) = 0 \<or> (d < next_dir (?dt d) \<and> next_dir (?dt d) < ?n)"
    if "d < MAX_DIRECTORIES" for d
    using ch [OF that] by (simp add: upd_dir_simps)
  have cne: "current_directory s \<noteq> ?n" using cur by simp
  have c50: "current_directory s < MAX_DIRECTORIES" using cur n50 by simp
  show ?thesis
  proof (cases "next_dir (?dt (current_directory s)) = 0")
    case True
    then have "next_dir (directory_table s (current_directory s)) = 0"
      using cne by (simp add: upd_dir_simps)
    with True cur s4 show ?thesis by auto
  next
    case False
    with ch4 [OF c50] have "next_dir (?dt (current_directory s)) < ?n" by simp
    from last_dir_loop_total [of ?dt ?n, OF ch4 n50 this] obtain q where
      q: "last_dir_loop ?dt (next_dir (?dt (current_directory s))) = Some q"
         "q < ?n" "next_dir (?dt q) = 0" by blast
    from q(2) have "q \<noteq> ?n" by simp
    with q(3) have "next_dir (directory_table s q) = 0" by (simp add: upd_dir_simps)
    with False q s4 show ?thesis by auto
  qed
qed

lemma fs_inv_create_directory:
  assumes inv: "fs_inv s" and cr: "create_directory name s = Some (r, s')"
  shows "fs_inv s'"
proof (cases "next_dir_id s < MAX_DIRECTORIES")
  case False
  with assms show ?thesis by (simp add: create_directory_def linorder_not_less)
next
  case True
  let ?n = "next_dir_id s"
  from create_directory_result [OF inv True, of name] cr obtain x where
    x: "x < ?n" "next_dir (directory_table s x) = 0"
    and s': "s' = upd_dir x (\<lambda>d. d\<lparr>next_dir := ?n\<rparr>)
                 (upd_dir ?n
                    (\<lambda>d. d\<lparr>d_name := (strncpy (d_name d) name (MAX_FILENAME - 1))[MAX_FILENAME - 1 := NUL],
                           d_parent_dir := current_directory s, first_file := 0, next_dir := 0\<rparr>)
                    (s\<lparr>next_dir_id := ?n + 1\<rparr>))"
    by auto
  note su = u32_succ [OF True]
  have xn: "x \<noteq> ?n" using x(1) by simp
  have x50: "x < MAX_DIRECTORIES" using x(1) True by simp
  have n0: "?n \<noteq> 0" using inv by (auto simp: fs_inv_def)
  have lt1: "y < ?n + 1" if "y < ?n" for y using that su(2) by simp
  from inv have cur: "current_directory s < ?n" by (simp add: fs_inv_def)
  have "0 < ?n + 1" using su(4) by (simp add: word_neq_0_conv)
  moreover have "current_directory s' < next_dir_id s'"
    using cur su(2) by (simp add: s' upd_dir_simps)
  moreover have "d_parent_dir (directory_table s' 0) = 0"
    using inv n0 by (simp add: s' upd_dir_simps fs_inv_def)
  moreover have "d_parent_dir (directory_table s' d) < d" if "0 < d" "d < MAX_DIRECTORIES" for d
    using inv that cur x50 by (simp add: s' upd_dir_simps fs_inv_def)
  moreover have "next_dir (directory_table s' d) = 0 \<or>
        (d < next_dir (directory_table s' d) \<and> next_dir (directory_table s' d) < next_dir_id s')"
    if "d < MAX_DIRECTORIES" for d
  proof -
    from inv that have "next_dir (directory_table s d) = 0 \<or>
        (d < next_dir (directory_table s d) \<and> next_dir (directory_table s d) < ?n)"
      by (simp add: fs_inv_def)
    then show ?thesis using x xn su(2) lt1 by (auto simp: s' upd_dir_simps)
  qed
  ultimately show ?thesis
    using inv su(1) unfolding fs_inv_def by (simp add: s' upd_dir_simps)
qed

text \<open>
  \<^verbatim>\<open>delete_directory\<close> returns on a state with the invariant: the entry is cleared, and
  when the chain of its parent leads to it, the link of a directory \<open>x\<close> of smaller id is
  moved past it.
\<close>

lemma delete_directory_result:
  assumes inv: "fs_inv s" and lt: "dir_id < next_dir_id s" and nz: "dir_id \<noteq> 0"
    and empty: "first_file (directory_table s dir_id) = 0"
  shows "\<exists>s1. delete_directory dir_id s = Some (0, upd_dir dir_id (\<lambda>d. directory_zero) s1)
           \<and> (s1 = s \<or> (\<exists>x. x < dir_id \<and>
                  s1 = upd_dir x (\<lambda>d. d\<lparr>next_dir := next_dir (directory_table s dir_id)\<rparr>) s))"
proof -
  let ?dt = "directory_table s"
  let ?n = "next_dir_id s"
  let ?p = "d_parent_dir (?dt dir_id)"
  from inv have n50: "?n \<le> MAX_DIRECTORIES"
    and ch: "\<And>d. d < MAX_DIRECTORIES \<Longrightarrow> next_dir (?dt d) = 0 \<or>
               (d < next_dir (?dt d) \<and> next_dir (?dt d) < ?n)"
    and par: "\<And>d. 0 < d \<Longrightarrow> d < MAX_DIRECTORIES \<Longrightarrow> d_parent_dir (?dt d) < d"
    by (simp_all add: fs_inv_def)
  have d50: "dir_id < MAX_DIRECTORIES" using lt n50 by simp
  have pos: "0 < dir_id" using nz by (simp add: word_neq_0_conv)
  have p: "?p < dir_id" using par [OF pos d50] .
  then have p50: "?p < MAX_DIRECTORIES" using d50 by simp
  have c: "next_dir (?dt ?p) = 0 \<or> next_dir (?dt ?p) < ?n" using ch [OF p50] by auto
  from unlink_dir_loop_total [of ?dt ?n "next_dir (?dt ?p)" 0 dir_id, OF ch n50 c]
  obtain prev' cur' where
    l: "unlink_dir_loop ?dt dir_id 0 (next_dir (?dt ?p)) = Some (prev', cur')"
    and pr: "prev' = 0 \<or> (prev' < MAX_DIRECTORIES \<and> next_dir (?dt prev') = cur')"
    by auto
  have nle: "\<not> ?n \<le> dir_id" using lt by simp
  let ?s1 = "if cur' = dir_id
             then (if prev' = 0
                   then upd_dir ?p (\<lambda>d. d\<lparr>next_dir := next_dir (?dt dir_id)\<rparr>) s
                   else upd_dir prev' (\<lambda>d. d\<lparr>next_dir := next_dir (?dt dir_id)\<rparr>) s)
             else s"
  have r: "delete_directory dir_id s = Some (0, upd_dir dir_id (\<lambda>d. directory_zero) ?s1)"
    using nle nz empty l by (simp add: delete_directory_def Let_def)
  have "?s1 = s \<or> (\<exists>x. x < dir_id \<and>
                  ?s1 = upd_dir x (\<lambda>d. d\<lparr>next_dir := next_dir (?dt dir_id)\<rparr>) s)"
  proof (cases "cur' = dir_id")
    case False
    then show ?thesis by simp
  next
    case True
    show ?thesis
    proof (cases "prev' = 0")
      case True
      with \<open>cur' = dir_id\<close> p show ?thesis by auto
    next
      case False
      with pr have p50': "prev' < MAX_DIRECTORIES" and nx: "next_dir (?dt prev') = cur'" by auto
      from ch [OF p50'] nx True nz have "prev' < dir_id" by auto
      with True False show ?thesis by auto
    qed
  qed
  with r show ?thesis by blast
qed

lemma fs_inv_delete_directory:
  assumes inv: "fs_inv s" and del: "delete_directory dir_id s = Some (e, s')"
  shows "fs_inv s'"
proof (cases "dir_id < next_dir_id s \<and> dir_id \<noteq> 0 \<and> first_file (directory_table s dir_id) = 0")
  case False
  with del have "s' = s"
    by (auto simp: delete_directory_def linorder_not_less split: if_splits)
  with inv show ?thesis by simp
next
  case True
  then have lt: "dir_id < next_dir_id s" and nz: "dir_id \<noteq> 0"
    and empty: "first_file (directory_table s dir_id) = 0" by auto
  let ?dt = "directory_table s"
  from inv have n50: "next_dir_id s \<le> MAX_DIRECTORIES"
    and ch: "\<And>d. d < MAX_DIRECTORIES \<Longrightarrow> next_dir (?dt d) = 0 \<or>
               (d < next_dir (?dt d) \<and> next_dir (?dt d) < next_dir_id s)"
    and par: "\<And>d. 0 < d \<Longrightarrow> d < MAX_DIRECTORIES \<Longrightarrow> d_parent_dir (?dt d) < d"
    and root: "d_parent_dir (?dt 0) = 0"
    by (simp_all add: fs_inv_def)
  have d50: "dir_id < MAX_DIRECTORIES" using lt n50 by simp
  from delete_directory_result [OF inv lt nz empty] del obtain s1 where
    s': "s' = upd_dir dir_id (\<lambda>d. directory_zero) s1"
    and s1: "s1 = s \<or> (\<exists>x. x < dir_id \<and>
                  s1 = upd_dir x (\<lambda>d. d\<lparr>next_dir := next_dir (?dt dir_id)\<rparr>) s)"
    by auto
  have pd: "d_parent_dir (directory_table s1 d) = d_parent_dir (?dt d)" for d
    using s1 by (auto simp: upd_dir_simps)
  have nd: "next_dir (directory_table s1 d) = 0 \<or>
        (d < next_dir (directory_table s1 d) \<and> next_dir (directory_table s1 d) < next_dir_id s)"
    if "d < MAX_DIRECTORIES" for d
  proof -
    from s1 show ?thesis
    proof
      assume "s1 = s"
      with ch [OF that] show ?thesis by simp
    next
      assume "\<exists>x. x < dir_id \<and>
                  s1 = upd_dir x (\<lambda>d. d\<lparr>next_dir := next_dir (?dt dir_id)\<rparr>) s"
      then obtain x where x: "x < dir_id"
        "s1 = upd_dir x (\<lambda>d. d\<lparr>next_dir := next_dir (?dt dir_id)\<rparr>) s" by blast
      show ?thesis
      proof (cases "d = x")
        case True
        with ch [OF d50] x show ?thesis by (auto simp: upd_dir_simps)
      next
        case False
        with ch [OF that] x show ?thesis by (simp add: upd_dir_simps)
      qed
    qed
  qed
  have rest: "next_file_id s1 = next_file_id s" "next_dir_id s1 = next_dir_id s"
    "current_directory s1 = current_directory s" "data_offset s1 = data_offset s"
    "file_table s1 = file_table s"
    using s1 by (auto simp: upd_dir_simps)
  have pos: "0 < dir_id" using nz by (simp add: word_neq_0_conv)
  have "d_parent_dir (directory_table s' 0) = 0"
    using root nz by (simp add: s' upd_dir_simps pd)
  moreover have "d_parent_dir (directory_table s' d) < d" if "0 < d" "d < MAX_DIRECTORIES" for d
    using par [OF that] that pos by (simp add: s' upd_dir_simps pd directory_zero_def)
  moreover have "next_dir (directory_table s' d) = 0 \<or>
        (d < next_dir (directory_table s' d) \<and> next_dir (directory_table s' d) < next_dir_id s')"
    if "d < MAX_DIRECTORIES" for d
    using nd [OF that] by (simp add: s' upd_dir_simps rest directory_zero_def)
  ultimately show ?thesis
    using inv unfolding fs_inv_def by (simp add: s' upd_dir_simps rest)
qed

lemma fs_inv_delete_file:
  assumes inv: "fs_inv s" and del: "delete_file file_id s = Some (e, s')"
  shows "fs_inv s'"
proof (cases "next_file_id s \<le> file_id")
  case True
  with del inv show ?thesis by (simp add: delete_file_def)
next
  case False
  let ?p = "f_parent_dir (file_table s file_id)"
  let ?v = "next_file (file_table s file_id)"
  from del False obtain prev cur where
    s': "s' = upd_file file_id (\<lambda>e. file_zero)
               (if cur = file_id
                then (if prev = 0
                      then upd_dir ?p (\<lambda>d. d\<lparr>first_file := ?v\<rparr>) s
                      else upd_file prev (\<lambda>e. e\<lparr>next_file := ?v\<rparr>) s)
                else s)"
    by (auto simp: delete_file_def Let_def split: option.splits)
  have a: "fs_inv (upd_dir ?p (\<lambda>d. d\<lparr>first_file := ?v\<rparr>) s)"
    using inv by (simp add: fs_inv_def upd_dir_simps)
  have b: "fs_inv (upd_file prev (\<lambda>e. e\<lparr>next_file := ?v\<rparr>) s)"
    using inv by (simp add: fs_inv_def upd_file_simps)
  have z: "fs_inv (upd_file file_id (\<lambda>e. file_zero) t)" if "fs_inv t" for t
    using that by (simp add: fs_inv_def upd_file_simps file_zero_def)
  show ?thesis unfolding s' using a b inv by (auto intro: z)
qed

lemma write_size_bound: "offset + write_size offset sz \<le> MAX_FILE_SIZE"
  by (simp add: write_size_def linorder_not_less)

lemma fs_inv_write_file:
  assumes inv: "fs_inv s" and wr: "write_file file_id data offset sz s = Inr (e, s')"
  shows "fs_inv s'"
proof -
  let ?fd = "memcpy (file_data s) (unat (data_start (file_table s file_id) + offset)) data 0
               (unat (write_size offset sz))"
  have a: "fs_inv (s\<lparr>file_data := ?fd\<rparr>)"
    using inv by (simp add: fs_inv_def)
  have b: "fs_inv (upd_file file_id (\<lambda>e. e\<lparr>f_size := offset + write_size offset sz\<rparr>)
               (s\<lparr>file_data := ?fd\<rparr>))"
    using inv write_size_bound [of offset sz] by (simp add: fs_inv_def upd_file_simps)
  from wr have "s' = s \<or> s' = s\<lparr>file_data := ?fd\<rparr>
      \<or> s' = upd_file file_id (\<lambda>e. e\<lparr>f_size := offset + write_size offset sz\<rparr>)
               (s\<lparr>file_data := ?fd\<rparr>)"
    by (auto simp: write_file_def Let_def split: if_splits)
  with inv a b show ?thesis by auto
qed

lemma fs_inv_set_current_directory: "fs_inv s \<Longrightarrow> fs_inv (set_current_directory dir_id s)"
  by (simp add: fs_inv_def set_current_directory_def)

lemma fs_reachable_inv: "fs_reachable s \<Longrightarrow> fs_inv s"
proof (induction rule: fs_reachable.induct)
  case (reach_init s0 s)
  then show ?case by (rule fs_inv_init)
next
  case (reach_create_file s name type perms r s')
  then show ?case by (blast intro: fs_inv_create_file)
next
  case (reach_create_directory s name r s')
  then show ?case by (blast intro: fs_inv_create_directory)
next
  case (reach_delete_file s file_id e s')
  then show ?case by (blast intro: fs_inv_delete_file)
next
  case (reach_delete_directory s dir_id e s')
  then show ?case by (blast intro: fs_inv_delete_directory)
next
  case (reach_write_file s file_id data offset sz e s')
  then show ?case by (blast intro: fs_inv_write_file)
next
  case (reach_set_current_directory s dir_id)
  then show ?case by (simp add: fs_inv_set_current_directory)
qed

section \<open>Proofs: paths\<close>

lemma create_directory_total:
  assumes "fs_inv s"
  shows "\<exists>r s'. create_directory name s = Some (r, s')"
proof (cases "next_dir_id s < MAX_DIRECTORIES")
  case True
  from create_directory_result [OF assms True, of name] show ?thesis by blast
next
  case False
  then show ?thesis by (simp add: create_directory_def linorder_not_less)
qed

lemma delete_directory_total:
  assumes "fs_inv s"
  shows "\<exists>e s'. delete_directory dir_id s = Some (e, s')"
proof (cases "dir_id < next_dir_id s \<and> dir_id \<noteq> 0 \<and> first_file (directory_table s dir_id) = 0")
  case True
  with delete_directory_result [OF assms, of dir_id] show ?thesis by blast
next
  case False
  then show ?thesis by (auto simp: delete_directory_def linorder_not_less)
qed

lemma full_path_total:
  assumes par: "\<And>d. 0 < d \<Longrightarrow> d < MAX_DIRECTORIES \<Longrightarrow> d_parent_dir (dt d) < d"
    and c: "c < MAX_DIRECTORIES"
  shows "\<exists>p. full_path dt c path = Some p \<and> length path \<le> length p"
  using c
proof (induction "unat c" arbitrary: c path rule: less_induct)
  case less
  show ?case
  proof (cases "c = 0")
    case True
    then show ?thesis by (simp add: full_path.simps [of dt 0])
  next
    case False
    then have pos: "0 < c" by (simp add: word_neq_0_conv)
    from par [OF pos less.prems] have lt: "d_parent_dir (dt c) < c" .
    then have "unat (d_parent_dir (dt c)) < unat c" by (simp add: word_less_nat_alt)
    moreover from lt less.prems have "d_parent_dir (dt c) < MAX_DIRECTORIES" by simp
    ultimately obtain p where
      "full_path dt (d_parent_dir (dt c)) (''/'' @ c_str (d_name (dt c)) @ path) = Some p"
      "length (''/'' @ c_str (d_name (dt c)) @ path) \<le> length p"
      using less.hyps by blast
    then show ?thesis using False by (simp add: full_path.simps [of dt c])
  qed
qed

lemma path_loop_full_path:
  assumes par: "\<And>d. 0 < d \<Longrightarrow> d < MAX_DIRECTORIES \<Longrightarrow> d_parent_dir (dt d) < d"
    and c: "c < MAX_DIRECTORIES"
    and fit: "length path < MAX_PATH_LENGTH"
  shows "\<exists>p. full_path dt c path = Some p
           \<and> path_loop dt c path
               = Some (if length p < MAX_PATH_LENGTH then Inr p else Inl BufferOverflow)"
  using c fit
proof (induction "unat c" arbitrary: c path rule: less_induct)
  case less
  show ?case
  proof (cases "c = 0")
    case True
    then show ?thesis
      using less.prems by (simp add: full_path.simps [of dt 0] path_loop.simps [of dt 0])
  next
    case False
    then have pos: "0 < c" by (simp add: word_neq_0_conv)
    let ?t = "''/'' @ c_str (d_name (dt c)) @ path"
    from par [OF pos less.prems(1)] have lt: "d_parent_dir (dt c) < c" .
    then have m: "unat (d_parent_dir (dt c)) < unat c" by (simp add: word_less_nat_alt)
    from lt less.prems have p50: "d_parent_dir (dt c) < MAX_DIRECTORIES" by simp
    have nge: "\<not> MAX_DIRECTORIES \<le> c" using less.prems(1) by simp
    have fp: "full_path dt c path = full_path dt (d_parent_dir (dt c)) ?t"
      using False by (simp add: full_path.simps [of dt c])
    show ?thesis
    proof (cases "length ?t < MAX_PATH_LENGTH")
      case True
      from less.hyps [OF m p50 True] obtain p where
        "full_path dt (d_parent_dir (dt c)) ?t = Some p"
        "path_loop dt (d_parent_dir (dt c)) ?t
           = Some (if length p < MAX_PATH_LENGTH then Inr p else Inl BufferOverflow)"
        by blast
      moreover have "path_loop dt c path = path_loop dt (d_parent_dir (dt c)) ?t"
        using False nge True by (simp add: path_loop.simps [of dt c path] Let_def)
      ultimately show ?thesis using fp by simp
    next
      case over: False
      from full_path_total [of dt "d_parent_dir (dt c)" ?t, OF par p50] obtain p where
        p: "full_path dt (d_parent_dir (dt c)) ?t = Some p" "length ?t \<le> length p"
        by blast
      with over have "\<not> length p < MAX_PATH_LENGTH" by simp
      moreover have "path_loop dt c path = Some (Inl BufferOverflow)"
        using False nge over by (simp add: path_loop.simps [of dt c path] Let_def)
      ultimately show ?thesis using fp p(1) by simp
    qed
  qed
qed

lemma get_path_string_root: "get_path_string 0 s = Some (Inr ''/'')"
  by (simp add: get_path_string_def path_loop.simps [of _ 0])

lemma path_loop_child_of_root:
  "c \<noteq> 0 \<Longrightarrow> c < MAX_DIRECTORIES \<Longrightarrow> d_parent_dir (dt c) = 0 \<Longrightarrow>
     length (''/'' @ c_str (d_name (dt c)) @ path) < MAX_PATH_LENGTH \<Longrightarrow>
     path_loop dt c path = Some (Inr (''/'' @ c_str (d_name (dt c)) @ path))"
  by (simp add: path_loop.simps [of dt c] path_loop.simps [of dt 0] linorder_not_le [symmetric])

lemma fs_boot_reachable: "fs_reachable fs_boot"
  using fs_boot_init by (rule reach_init)

lemma fs_a_b_reachable: "fs_reachable fs_a_b"
proof -
  from fs_boot_reachable fs_a_create have "fs_reachable fs_a"
    by (rule reach_create_directory)
  then have "fs_reachable (set_current_directory 1 fs_a)"
    by (rule reach_set_current_directory)
  then show ?thesis using fs_a_b_create by (rule reach_create_directory)
qed

text \<open>The five nested directories.\<close>

lemma long_name_facts:
  "c_str long_name = long_name" "length long_name = 31" "take 31 long_name = long_name"
proof -
  have "c_str (replicate n (CHR ''a'')) = replicate n (CHR ''a'')" for n
    by (induction n) (simp_all add: c_str_Nil c_str_eval)
  then show "c_str long_name = long_name" by (simp add: long_name_def)
  show "length long_name = 31" "take 31 long_name = long_name" by (simp_all add: long_name_def)
qed

lemma fs_deep1_create: "create_directory long_name fs_boot = Some (1, fs_deep1)"
  by (simp add: fs_deep1_def create_directory_def fs_eval)

lemma fs_deep1_facts:
  "next_dir_id fs_deep1 = 2" "current_directory fs_deep1 = 0"
  "next_dir (directory_table fs_deep1 0) = 1" "next_dir (directory_table fs_deep1 1) = 0"
  "d_parent_dir (directory_table fs_deep1 1) = 0"
  "c_str (d_name (directory_table fs_deep1 1)) = long_name"
  by (simp_all add: fs_deep1_def create_directory_def fs_eval long_name_facts)

lemma fs_deep2_create:
  "create_directory long_name (set_current_directory 1 fs_deep1) = Some (2, fs_deep2)"
  by (simp add: fs_deep2_def create_directory_def set_current_directory_def fs_deep1_facts fs_eval)

lemma fs_deep2_facts:
  "next_dir_id fs_deep2 = 3" "current_directory fs_deep2 = 1"
  "next_dir (directory_table fs_deep2 0) = 1" "next_dir (directory_table fs_deep2 1) = 2"
  "next_dir (directory_table fs_deep2 2) = 0"
  "d_parent_dir (directory_table fs_deep2 1) = 0"
  "d_parent_dir (directory_table fs_deep2 2) = 1"
  "c_str (d_name (directory_table fs_deep2 1)) = long_name"
  "c_str (d_name (directory_table fs_deep2 2)) = long_name"
  by (simp_all add: fs_deep2_def create_directory_def set_current_directory_def fs_deep1_facts
      fs_eval long_name_facts)

lemma fs_deep3_create:
  "create_directory long_name (set_current_directory 2 fs_deep2) = Some (3, fs_deep3)"
  by (simp add: fs_deep3_def create_directory_def set_current_directory_def fs_deep2_facts fs_eval)

lemma fs_deep3_facts:
  "next_dir_id fs_deep3 = 4" "current_directory fs_deep3 = 2"
  "next_dir (directory_table fs_deep3 0) = 1" "next_dir (directory_table fs_deep3 1) = 2"
  "next_dir (directory_table fs_deep3 2) = 3" "next_dir (directory_table fs_deep3 3) = 0"
  "d_parent_dir (directory_table fs_deep3 1) = 0"
  "d_parent_dir (directory_table fs_deep3 2) = 1"
  "d_parent_dir (directory_table fs_deep3 3) = 2"
  "c_str (d_name (directory_table fs_deep3 1)) = long_name"
  "c_str (d_name (directory_table fs_deep3 2)) = long_name"
  "c_str (d_name (directory_table fs_deep3 3)) = long_name"
  by (simp_all add: fs_deep3_def create_directory_def set_current_directory_def fs_deep2_facts
      fs_eval long_name_facts)

lemma fs_deep4_create:
  "create_directory long_name (set_current_directory 3 fs_deep3) = Some (4, fs_deep4)"
  by (simp add: fs_deep4_def create_directory_def set_current_directory_def fs_deep3_facts fs_eval)

lemma fs_deep4_facts:
  "next_dir_id fs_deep4 = 5" "current_directory fs_deep4 = 3"
  "next_dir (directory_table fs_deep4 0) = 1" "next_dir (directory_table fs_deep4 1) = 2"
  "next_dir (directory_table fs_deep4 2) = 3" "next_dir (directory_table fs_deep4 3) = 4"
  "next_dir (directory_table fs_deep4 4) = 0"
  "d_parent_dir (directory_table fs_deep4 1) = 0"
  "d_parent_dir (directory_table fs_deep4 2) = 1"
  "d_parent_dir (directory_table fs_deep4 3) = 2"
  "d_parent_dir (directory_table fs_deep4 4) = 3"
  "c_str (d_name (directory_table fs_deep4 1)) = long_name"
  "c_str (d_name (directory_table fs_deep4 2)) = long_name"
  "c_str (d_name (directory_table fs_deep4 3)) = long_name"
  "c_str (d_name (directory_table fs_deep4 4)) = long_name"
  by (simp_all add: fs_deep4_def create_directory_def set_current_directory_def fs_deep3_facts
      fs_eval long_name_facts)

lemma fs_deep5_create:
  "create_directory long_name (set_current_directory 4 fs_deep4) = Some (5, fs_deep5)"
  by (simp add: fs_deep5_def create_directory_def set_current_directory_def fs_deep4_facts fs_eval)

lemma fs_deep5_facts:
  "next_dir_id fs_deep5 = 6"
  "d_parent_dir (directory_table fs_deep5 1) = 0"
  "d_parent_dir (directory_table fs_deep5 2) = 1"
  "d_parent_dir (directory_table fs_deep5 3) = 2"
  "d_parent_dir (directory_table fs_deep5 4) = 3"
  "d_parent_dir (directory_table fs_deep5 5) = 4"
  "c_str (d_name (directory_table fs_deep5 1)) = long_name"
  "c_str (d_name (directory_table fs_deep5 2)) = long_name"
  "c_str (d_name (directory_table fs_deep5 3)) = long_name"
  "c_str (d_name (directory_table fs_deep5 4)) = long_name"
  "c_str (d_name (directory_table fs_deep5 5)) = long_name"
  by (simp_all add: fs_deep5_def create_directory_def set_current_directory_def fs_deep4_facts
      fs_eval long_name_facts)

lemma fs_deep5_reachable: "fs_reachable fs_deep5"
proof -
  note cr = reach_create_directory and cd = reach_set_current_directory
  from fs_boot_reachable fs_deep1_create have "fs_reachable fs_deep1" by (rule cr)
  then have "fs_reachable (set_current_directory 1 fs_deep1)" by (rule cd)
  then have "fs_reachable fs_deep2" using fs_deep2_create by (rule cr)
  then have "fs_reachable (set_current_directory 2 fs_deep2)" by (rule cd)
  then have "fs_reachable fs_deep3" using fs_deep3_create by (rule cr)
  then have "fs_reachable (set_current_directory 3 fs_deep3)" by (rule cd)
  then have "fs_reachable fs_deep4" using fs_deep4_create by (rule cr)
  then have "fs_reachable (set_current_directory 4 fs_deep4)" by (rule cd)
  then show ?thesis using fs_deep5_create by (rule cr)
qed

text \<open>
  Claim C10, as amended. In every state the file system reaches (\<^verbatim>\<open>init_filesystem\<close>
  followed by any operations), the root is its own parent and every other directory of
  the table has a parent of strictly smaller id; \<^verbatim>\<open>create_directory\<close> and
  \<^verbatim>\<open>delete_directory\<close> return there, and keep this true since their result is reached
  too. So the walk along the parents goes down to 0 for every id of the directory table
  and gives a path, and when this path has at most 127 characters (it fits, with its
  NUL, the buffers of 128 bytes) \<^verbatim>\<open>get_path_string\<close> returns it, and returns "/" for the
  root.
\<close>

theorem get_path_string_terminates:
  assumes "fs_reachable s"
  shows "d_parent_dir (directory_table s 0) = 0
       \<and> (\<forall>d. 0 < d \<and> d < MAX_DIRECTORIES \<longrightarrow> d_parent_dir (directory_table s d) < d)
       \<and> (\<forall>dir_id. dir_id < MAX_DIRECTORIES \<longrightarrow>
            (\<exists>p. full_path (directory_table s) dir_id [] = Some p
                \<and> (length p < MAX_PATH_LENGTH \<longrightarrow>
                      get_path_string dir_id s = Some (Inr (if p = [] then ''/'' else p)))))
       \<and> (\<forall>name. \<exists>r s'. create_directory name s = Some (r, s') \<and> fs_reachable s')
       \<and> (\<forall>dir_id. \<exists>e s'. delete_directory dir_id s = Some (e, s') \<and> fs_reachable s')"
proof -
  from assms have inv: "fs_inv s" by (rule fs_reachable_inv)
  then have root: "d_parent_dir (directory_table s 0) = 0"
    and par: "\<And>d. 0 < d \<Longrightarrow> d < MAX_DIRECTORIES \<Longrightarrow> d_parent_dir (directory_table s d) < d"
    by (simp_all add: fs_inv_def)
  have "\<exists>p. full_path (directory_table s) dir_id [] = Some p
          \<and> (length p < MAX_PATH_LENGTH \<longrightarrow>
                get_path_string dir_id s = Some (Inr (if p = [] then ''/'' else p)))"
    if "dir_id < MAX_DIRECTORIES" for dir_id
  proof -
    have "length ([] :: string) < MAX_PATH_LENGTH" by (simp add: MAX_PATH_LENGTH_def)
    from path_loop_full_path [of "directory_table s" dir_id "[]", OF par that this]
    obtain p where p: "full_path (directory_table s) dir_id [] = Some p"
      "path_loop (directory_table s) dir_id []
         = Some (if length p < MAX_PATH_LENGTH then Inr p else Inl BufferOverflow)"
      by blast
    then have "length p < MAX_PATH_LENGTH \<longrightarrow>
                get_path_string dir_id s = Some (Inr (if p = [] then ''/'' else p))"
      by (simp add: get_path_string_def)
    with p(1) show ?thesis by blast
  qed
  moreover have "\<exists>r s'. create_directory name s = Some (r, s') \<and> fs_reachable s'" for name
    using create_directory_total [OF inv, of name] assms
    by (blast intro: reach_create_directory)
  moreover have "\<exists>e s'. delete_directory dir_id s = Some (e, s') \<and> fs_reachable s'" for dir_id
    using delete_directory_total [OF inv, of dir_id] assms
    by (blast intro: reach_delete_directory)
  ultimately show ?thesis using root par by blast
qed

theorem get_path_string_terminates_witness:
  "fs_reachable fs_a_b
   \<and> d_parent_dir (directory_table fs_a_b 2) < 2
   \<and> full_path (directory_table fs_a_b) 2 [] = Some ''/a/b''
   \<and> get_path_string 2 fs_a_b = Some (Inr ''/a/b'')"
proof -
  have fp: "full_path (directory_table fs_a_b) 2 [] = Some ''/a/b''"
    by (simp add: full_path.simps fs_a_b_facts c_str_Nil c_str_eval)
  have "(2::u32) < MAX_DIRECTORIES" by (simp add: MAX_DIRECTORIES_def)
  with get_path_string_terminates [OF fs_a_b_reachable]
  obtain p where "full_path (directory_table fs_a_b) 2 [] = Some p"
    "length p < MAX_PATH_LENGTH \<longrightarrow>
       get_path_string 2 fs_a_b = Some (Inr (if p = [] then ''/'' else p))"
    by blast
  with fp have "get_path_string 2 fs_a_b = Some (Inr ''/a/b'')"
    by (simp add: MAX_PATH_LENGTH_def)
  with fp show ?thesis using fs_a_b_reachable by (simp add: fs_a_b_facts)
qed

text \<open>
  The claim as it was stated fails: in the reached state \<open>fs_deep5\<close>, the directory 5 is
  in the table and the walk from it reaches the root, but its path has 160 characters;
  on the fourth round the string has 128 characters, which with its NUL does not fit
  \<^verbatim>\<open>temp_path\<close>, and \<^verbatim>\<open>get_path_string\<close> does not return a path.
\<close>

theorem get_path_string_terminates_counterexample:
  "fs_reachable fs_deep5
   \<and> 5 < next_dir_id fs_deep5
   \<and> 5 < MAX_DIRECTORIES
   \<and> map_option length (full_path (directory_table fs_deep5) 5 []) = Some 160
   \<and> get_path_string 5 fs_deep5 = Some (Inl BufferOverflow)"
proof -
  have "map_option length (full_path (directory_table fs_deep5) 5 []) = Some 160"
    by (simp add: full_path.simps fs_deep5_facts long_name_facts)
  moreover have "get_path_string 5 fs_deep5 = Some (Inl BufferOverflow)"
    by (simp add: get_path_string_def path_loop.simps fs_deep5_facts long_name_facts
        MAX_DIRECTORIES_def MAX_PATH_LENGTH_def word_le_nat_alt)
  ultimately show ?thesis
    by (simp add: fs_deep5_reachable fs_deep5_facts MAX_DIRECTORIES_def)
qed

text \<open>
  Claim C7. \<^verbatim>\<open>get_path_string\<close> of the root, id 0, is "/". In a reached state whose
  current directory is the root and whose directory table is not full,
  \<^verbatim>\<open>create_directory("etc")\<close> returns a new id, not 0, with the root as parent, and
  \<^verbatim>\<open>get_path_string\<close> of that id is "/etc".
\<close>

theorem get_path_string_root_and_child:
  "get_path_string 0 s = Some (Inr ''/'')
   \<and> (fs_reachable s \<and> current_directory s = 0 \<and> next_dir_id s < MAX_DIRECTORIES \<longrightarrow>
        (\<exists>s'. create_directory ''etc'' s = Some (next_dir_id s, s')
              \<and> next_dir_id s \<noteq> 0
              \<and> d_parent_dir (directory_table s' (next_dir_id s)) = 0
              \<and> get_path_string (next_dir_id s) s' = Some (Inr ''/etc'')))"
proof (intro conjI impI)
  show "get_path_string 0 s = Some (Inr ''/'')" by (rule get_path_string_root)
next
  assume a: "fs_reachable s \<and> current_directory s = 0 \<and> next_dir_id s < MAX_DIRECTORIES"
  then have inv: "fs_inv s" by (simp add: fs_reachable_inv)
  let ?n = "next_dir_id s"
  from inv have n0: "?n \<noteq> 0" by (auto simp: fs_inv_def)
  from a have n50: "?n < MAX_DIRECTORIES" by simp
  from a create_directory_result [OF inv, of "''etc''"] obtain x s' where
    x: "x < ?n" and cr: "create_directory ''etc'' s = Some (?n, s')"
    and s': "s' = upd_dir x (\<lambda>d. d\<lparr>next_dir := ?n\<rparr>)
                 (upd_dir ?n
                    (\<lambda>d. d\<lparr>d_name := (strncpy (d_name d) ''etc'' (MAX_FILENAME - 1))[MAX_FILENAME - 1 := NUL],
                           d_parent_dir := current_directory s, first_file := 0, next_dir := 0\<rparr>)
                    (s\<lparr>next_dir_id := ?n + 1\<rparr>))"
    by auto
  have xn: "x \<noteq> ?n" using x by simp
  have p: "d_parent_dir (directory_table s' ?n) = 0"
    using a xn by (simp add: s' upd_dir_simps)
  have nm: "c_str (d_name (directory_table s' ?n)) = ''etc''"
    using xn by (simp add: s' upd_dir_simps c_str_strncpy_Suc c_str_Nil c_str_eval)
  have fit: "length (''/'' @ c_str (d_name (directory_table s' ?n)) @ []) < MAX_PATH_LENGTH"
    by (simp add: nm MAX_PATH_LENGTH_def)
  have "get_path_string ?n s' = Some (Inr ''/etc'')"
    using path_loop_child_of_root [of ?n "directory_table s'" "[]", OF n0 n50 p fit]
    by (simp add: get_path_string_def nm)
  with cr n0 p show "\<exists>s'. create_directory ''etc'' s = Some (?n, s')
              \<and> ?n \<noteq> 0
              \<and> d_parent_dir (directory_table s' ?n) = 0
              \<and> get_path_string ?n s' = Some (Inr ''/etc'')" by blast
qed

theorem get_path_string_root_and_child_witness:
  "get_path_string 0 fs_boot = Some (Inr ''/'')
   \<and> create_directory ''etc'' fs_boot = Some (1, fs_etc)
   \<and> get_path_string 1 fs_etc = Some (Inr ''/etc'')"
proof -
  have h: "fs_reachable fs_boot \<and> current_directory fs_boot = 0
           \<and> next_dir_id fs_boot < MAX_DIRECTORIES"
    by (simp add: fs_boot_reachable fs_boot_facts MAX_DIRECTORIES_def)
  from get_path_string_root_and_child [of fs_boot] h
  show ?thesis by (simp add: fs_boot_facts fs_etc_create)
qed

section \<open>Proofs: reading and writing\<close>

lemma memcpy_apply:
  "memcpy dst d src s n i = (if d \<le> i \<and> i < d + n then src (s + (i - d)) else dst i)"
  by (simp add: memcpy_def)

lemma sint_small: "(w :: u32) \<le> MAX_FILE_SIZE \<Longrightarrow> sint w = int (unat w)"
proof -
  assume "w \<le> MAX_FILE_SIZE"
  then have "unat w \<le> 4096" by (simp add: word_le_nat_alt MAX_FILE_SIZE_def)
  then show ?thesis by (simp add: sint_u32)
qed

text \<open>Writing at offset 0, and reading at offset 0 what the size allows.\<close>

lemma write_file_at_0:
  fixes N :: u32
  assumes "file_id < next_file_id s"
    and "unat (data_start (file_table s file_id)) + 4096 \<le> unat MAX_FILES * unat MAX_FILE_SIZE"
  defines "c \<equiv> (if MAX_FILE_SIZE < N then MAX_FILE_SIZE else N)"
  shows "\<exists>s'. write_file file_id data 0 N s = Inr (int (unat c), s')
       \<and> file_data s'
           = memcpy (file_data s) (unat (data_start (file_table s file_id))) data 0 (unat c)
       \<and> f_size (file_table s' file_id)
           = (if f_size (file_table s file_id) < c then c else f_size (file_table s file_id))
       \<and> data_start (file_table s' file_id) = data_start (file_table s file_id)
       \<and> next_file_id s' = next_file_id s"
proof -
  have nle: "\<not> next_file_id s \<le> file_id" using assms(1) by simp
  have ws: "write_size 0 N = c" by (simp add: write_size_def c_def)
  have cle: "c \<le> MAX_FILE_SIZE" by (simp add: c_def linorder_not_less)
  then have "unat c \<le> 4096" by (simp add: word_le_nat_alt MAX_FILE_SIZE_def)
  with assms(2) have inb: "\<not> unat MAX_FILES * unat MAX_FILE_SIZE
      < unat (data_start (file_table s file_id)) + unat c" by simp
  have m0: "memcpy m b data 0 0 = m" for m b by (rule ext) (auto simp: memcpy_def)
  have c0: "(0 < c) = (c \<noteq> 0)" by (simp add: word_neq_0_conv)
  show ?thesis
  proof (cases "c = 0")
    case True
    with nle show ?thesis by (simp add: write_file_def ws Let_def m0)
  next
    case False
    with nle inb show ?thesis
      by (auto simp: write_file_def ws Let_def upd_file_simps c0 sint_small [OF cle])
  qed
qed

lemma read_file_at_0:
  fixes N :: u32 and s :: fs and file_id :: u32
  assumes "file_id < next_file_id s"
  defines "c \<equiv> (if f_size (file_table s file_id) < N then f_size (file_table s file_id) else N)"
  assumes "unat (data_start (file_table s file_id)) + unat c \<le> unat MAX_FILES * unat MAX_FILE_SIZE"
  shows "read_file file_id buf 0 N s
           = Inr (sint c,
                  memcpy buf 0 (file_data s) (unat (data_start (file_table s file_id))) (unat c))"
proof -
  have nle: "\<not> next_file_id s \<le> file_id" using assms(1) by simp
  have rs: "read_size file_id 0 N s = c" by (simp add: read_size_def c_def)
  have inb: "\<not> unat MAX_FILES * unat MAX_FILE_SIZE
      < unat (data_start (file_table s file_id)) + unat c" using assms(3) by simp
  have m0: "memcpy m 0 fd b 0 = m" for m fd b by (rule ext) (auto simp: memcpy_def)
  have c0: "(0 < c) = (c \<noteq> 0)" by (simp add: word_neq_0_conv)
  show ?thesis
  proof (cases "c = 0")
    case True
    with nle show ?thesis by (simp add: read_file_def rs Let_def m0)
  next
    case False
    with nle inb show ?thesis by (simp add: read_file_def rs Let_def c0)
  qed
qed

text \<open>
  Claim C4. For a file id below \<^verbatim>\<open>next_file_id\<close> in a reached state, and every \<open>N\<close>:
  \<^verbatim>\<open>write_file(id, data, 0, N)\<close> and then \<^verbatim>\<open>read_file(id, buf, 0, N)\<close> both return, with
  no copy outside \<^verbatim>\<open>file_data\<close>. If \<open>N\<close> is at most \<^verbatim>\<open>MAX_FILE_SIZE\<close> (4096), the write
  returns \<open>N\<close> and the read returns \<open>N\<close> with the first \<open>N\<close> bytes of \<open>buf\<close> equal to
  those of \<open>data\<close>, the rest of \<open>buf\<close> untouched. If \<open>N\<close> is larger, the write returns
  4096, the partition of the file holds the first 4096 bytes of \<open>data\<close> and nothing
  outside the partition is written, the recorded size becomes 4096, and the read returns
  these 4096 bytes. The partition lies inside \<^verbatim>\<open>file_data\<close>.
\<close>

theorem write_file_read_file_roundtrip:
  fixes N :: u32 and s :: fs and file_id :: u32
    and data :: "nat \<Rightarrow> byte" and buf :: "nat \<Rightarrow> byte"
  assumes "fs_reachable s" and "file_id < next_file_id s"
  defines "base \<equiv> unat (data_start (file_table s file_id))"
  shows "\<exists>w r.
         write_file file_id data 0 N s = Inr w
       \<and> read_file file_id buf 0 N (snd w) = Inr r
       \<and> (N \<le> MAX_FILE_SIZE \<longrightarrow>
            fst w = int (unat N) \<and> fst r = int (unat N)
          \<and> (\<forall>i<unat N. snd r i = data i)
          \<and> (\<forall>i. unat N \<le> i \<longrightarrow> snd r i = buf i))
       \<and> (MAX_FILE_SIZE < N \<longrightarrow>
            fst w = 4096
          \<and> f_size (file_table (snd w) file_id) = MAX_FILE_SIZE
          \<and> (\<forall>i<4096. file_data (snd w) (base + i) = data i)
          \<and> (\<forall>j. j < base \<or> base + 4096 \<le> j \<longrightarrow> file_data (snd w) j = file_data s j)
          \<and> fst r = 4096
          \<and> (\<forall>i<4096. snd r i = data i)
          \<and> (\<forall>i. 4096 \<le> i \<longrightarrow> snd r i = buf i))
       \<and> base + 4096 \<le> unat MAX_FILES * unat MAX_FILE_SIZE"
proof -
  from assms(1) have inv: "fs_inv s" by (rule fs_reachable_inv)
  then have "next_file_id s \<le> MAX_FILES" by (simp add: fs_inv_def)
  with assms(2) have f100: "file_id < MAX_FILES" by simp
  with inv have fsz: "f_size (file_table s file_id) \<le> MAX_FILE_SIZE"
    and ds: "data_start (file_table s file_id) \<le> (MAX_FILES - 1) * MAX_FILE_SIZE"
    by (simp_all add: fs_inv_def)
  from ds have bound: "base + 4096 \<le> unat MAX_FILES * unat MAX_FILE_SIZE"
    by (simp add: base_def word_le_nat_alt MAX_FILES_def MAX_FILE_SIZE_def)
  let ?c = "if MAX_FILE_SIZE < N then MAX_FILE_SIZE else N"
  from write_file_at_0 [OF assms(2) bound [unfolded base_def], of data N]
  obtain s' where wr: "write_file file_id data 0 N s = Inr (int (unat ?c), s')"
    and fd: "file_data s' = memcpy (file_data s) base data 0 (unat ?c)"
    and sz': "f_size (file_table s' file_id)
               = (if f_size (file_table s file_id) < ?c then ?c else f_size (file_table s file_id))"
    and ds': "data_start (file_table s' file_id) = data_start (file_table s file_id)"
    and nf': "next_file_id s' = next_file_id s"
    unfolding base_def by blast
  have lt': "file_id < next_file_id s'" using assms(2) by (simp add: nf')
  have u: "unat MAX_FILE_SIZE = 4096" by (simp add: MAX_FILE_SIZE_def)
  have cle: "?c \<le> MAX_FILE_SIZE" by (simp add: linorder_not_less)
  have "f_size (file_table s' file_id) \<le> MAX_FILE_SIZE" unfolding sz' using fsz cle by simp
  then have rcle: "(if f_size (file_table s' file_id) < N then f_size (file_table s' file_id) else N)
      \<le> MAX_FILE_SIZE" using cle by (auto simp: linorder_not_less)
  then have "unat (if f_size (file_table s' file_id) < N then f_size (file_table s' file_id) else N)
      \<le> 4096" unfolding word_le_nat_alt u .
  with bound have rb: "unat (data_start (file_table s' file_id))
      + unat (if f_size (file_table s' file_id) < N then f_size (file_table s' file_id) else N)
      \<le> unat MAX_FILES * unat MAX_FILE_SIZE"
    unfolding ds' base_def by simp
  note rf = read_file_at_0 [OF lt' rb, of buf, unfolded ds', folded base_def]
  have small: ?thesis if le: "N \<le> MAX_FILE_SIZE"
  proof -
    from le have c: "?c = N" by auto
    have rc: "(if f_size (file_table s' file_id) < N then f_size (file_table s' file_id) else N) = N"
      unfolding sz' c by auto
    let ?b = "memcpy buf 0 (memcpy (file_data s) base data 0 (unat N)) base (unat N)"
    have w: "write_file file_id data 0 N s = Inr (int (unat N), s')" using wr c by simp
    have r: "read_file file_id buf 0 N s' = Inr (int (unat N), ?b)"
      unfolding rf rc fd c using sint_small [OF le] by simp
    have "\<forall>i<unat N. ?b i = data i" by (simp add: memcpy_apply)
    moreover have "\<forall>i. unat N \<le> i \<longrightarrow> ?b i = buf i" by (simp add: memcpy_apply)
    moreover have "\<not> MAX_FILE_SIZE < N" using le by (simp add: linorder_not_less)
    ultimately show ?thesis using le bound w r by simp
  qed
  have large: ?thesis if gt: "MAX_FILE_SIZE < N"
  proof -
    from gt have c: "?c = MAX_FILE_SIZE" by auto
    have z: "f_size (file_table s' file_id) = MAX_FILE_SIZE"
      unfolding sz' c using fsz by auto
    have rc: "(if f_size (file_table s' file_id) < N then f_size (file_table s' file_id) else N)
                = MAX_FILE_SIZE"
      unfolding z using gt by auto
    let ?fd = "memcpy (file_data s) base data 0 4096"
    let ?b = "memcpy buf 0 ?fd base 4096"
    have w: "write_file file_id data 0 N s = Inr (4096, s')" using wr c u by simp
    have fd': "file_data s' = ?fd" unfolding fd c u ..
    have r: "read_file file_id buf 0 N s' = Inr (4096, ?b)"
      unfolding rf rc fd' u using sint_small [of MAX_FILE_SIZE] u by simp
    have "\<forall>i<4096. file_data s' (base + i) = data i"
      unfolding fd' by (simp add: memcpy_apply)
    moreover have "\<forall>j. j < base \<or> base + 4096 \<le> j \<longrightarrow> file_data s' j = file_data s j"
      unfolding fd' by (auto simp: memcpy_apply)
    moreover have "\<forall>i<4096. ?b i = data i" by (simp add: memcpy_apply)
    moreover have "\<forall>i. 4096 \<le> i \<longrightarrow> ?b i = buf i" by (simp add: memcpy_apply)
    moreover have "\<not> N \<le> MAX_FILE_SIZE" using gt by (simp add: linorder_not_le)
    ultimately show ?thesis using gt bound w r z by simp
  qed
  from small large show ?thesis by (cases "N \<le> MAX_FILE_SIZE") (auto simp: linorder_not_le)
qed

theorem write_file_read_file_roundtrip_witness:
  "(\<exists>w r. write_file 1 count_bytes 0 5 fs_boot = Inr w
        \<and> read_file 1 zero_bytes 0 5 (snd w) = Inr r
        \<and> fst w = 5 \<and> fst r = 5 \<and> snd r 3 = 3 \<and> snd r 5 = 0)
   \<and> (\<exists>w r. write_file 1 count_bytes 0 5000 fs_boot = Inr w
        \<and> read_file 1 zero_bytes 0 5000 (snd w) = Inr r
        \<and> fst w = 4096 \<and> f_size (file_table (snd w) 1) = 4096
        \<and> fst r = 4096 \<and> snd r 4095 = 255 \<and> snd r 4096 = 0)"
proof -
  have lt: "(1::u32) < next_file_id fs_boot" by (simp add: fs_boot_facts)
  have a: "(5::u32) \<le> MAX_FILE_SIZE" "MAX_FILE_SIZE < (5000::u32)"
    by (simp_all add: MAX_FILE_SIZE_def)
  from write_file_read_file_roundtrip [OF fs_boot_reachable lt, of count_bytes 5 zero_bytes]
  obtain w r where "write_file 1 count_bytes 0 5 fs_boot = Inr w"
    "read_file 1 zero_bytes 0 5 (snd w) = Inr r"
    "5 \<le> MAX_FILE_SIZE \<longrightarrow>
       fst w = int (unat (5::u32)) \<and> fst r = int (unat (5::u32))
       \<and> (\<forall>i<unat (5::u32). snd r i = count_bytes i)
       \<and> (\<forall>i. unat (5::u32) \<le> i \<longrightarrow> snd r i = zero_bytes i)"
    by blast
  with a(1) have "write_file 1 count_bytes 0 5 fs_boot = Inr w
        \<and> read_file 1 zero_bytes 0 5 (snd w) = Inr r
        \<and> fst w = 5 \<and> fst r = 5 \<and> snd r 3 = 3 \<and> snd r 5 = 0"
    by (simp add: count_bytes_def zero_bytes_def)
  then have small: "\<exists>w r. write_file 1 count_bytes 0 5 fs_boot = Inr w
        \<and> read_file 1 zero_bytes 0 5 (snd w) = Inr r
        \<and> fst w = 5 \<and> fst r = 5 \<and> snd r 3 = 3 \<and> snd r 5 = 0"
    by blast
  from write_file_read_file_roundtrip [OF fs_boot_reachable lt, of count_bytes 5000 zero_bytes]
  obtain w r where "write_file 1 count_bytes 0 5000 fs_boot = Inr w"
    "read_file 1 zero_bytes 0 5000 (snd w) = Inr r"
    "MAX_FILE_SIZE < 5000 \<longrightarrow>
       fst w = 4096 \<and> f_size (file_table (snd w) 1) = MAX_FILE_SIZE
       \<and> fst r = 4096
       \<and> (\<forall>i<4096. snd r i = count_bytes i)
       \<and> (\<forall>i. 4096 \<le> i \<longrightarrow> snd r i = zero_bytes i)"
    by blast
  with a(2) have "write_file 1 count_bytes 0 5000 fs_boot = Inr w
        \<and> read_file 1 zero_bytes 0 5000 (snd w) = Inr r
        \<and> fst w = 4096 \<and> f_size (file_table (snd w) 1) = 4096
        \<and> fst r = 4096 \<and> snd r 4095 = 255 \<and> snd r 4096 = 0"
    by (simp add: count_bytes_def zero_bytes_def MAX_FILE_SIZE_def)
  then have "\<exists>w r. write_file 1 count_bytes 0 5000 fs_boot = Inr w
        \<and> read_file 1 zero_bytes 0 5000 (snd w) = Inr r
        \<and> fst w = 4096 \<and> f_size (file_table (snd w) 1) = 4096
        \<and> fst r = 4096 \<and> snd r 4095 = 255 \<and> snd r 4096 = 0"
    by blast
  with small show ?thesis by simp
qed


text \<open>
  \<^verbatim>\<open>read_file(2, buffer, 5, 3)\<close> after \<^verbatim>\<open>init_filesystem\<close>: the length after the clamp
  is \<open>2^32 - 5\<close>, and the copy does not end inside \<^verbatim>\<open>file_data\<close>.
\<close>

lemma read_file_copy_leaves_file_data:
  "read_file 2 zero_bytes 5 3 fs_boot = Inl OutOfBounds"
proof -
  have rs: "read_size 2 5 3 fs_boot = 0xFFFFFFFB"
    by (simp add: fs_boot_sizes MAX_FILES_def read_size_def)
  show ?thesis
    by (simp add: read_file_def rs fs_boot_facts MAX_FILES_def MAX_FILE_SIZE_def Let_def
        word_le_nat_alt)
qed




end
